theory Spec2Isabelle
  imports Complex_Main "HOL-Library.Word"
begin

text \<open>
  A shallow embedding of the numeric core of three command line tools of the collection:
  binarize-sauvola (Sauvola's local thresholding over two integral images), isolate-bg
  (background isolation: Sauvola mask, mask refinement by distance transform, diffusion
  inpainting, normalization) and mask-op (mask commands). Every definition of the first
  five sections follows one function or loop of the C++ sources; the OpenCV functions the
  sources call are parameters (record \<open>opencv\<close>), apart from \<open>copyMakeBorder\<close> with
  \<open>BORDER_REPLICATE\<close> and the element conversions, whose meaning is fixed.
\<close>

section \<open>Images and loops\<close>

text \<open>
  A \<open>cv::Mat\<close> is its size and its elements: \<open>px m y x\<close> is \<open>m.at<T>(y, x)\<close>. Only the
  elements with \<open>y < rows m\<close> and \<open>x < cols m\<close> belong to the matrix; the properties below
  speak about those. An 8-bit grayscale image has elements of type \<open>uchar\<close>, a colour image
  elements \<open>Vec3b\<close> (blue, green, red); \<open>image\<close> is what \<open>imread\<close> with
  \<open>IMREAD_ANYCOLOR\<close> can return. The name \<open>mask\<close> of the sources is written \<open>msk\<close>
  (\<open>mask\<close> is a constant of the word library).
\<close>

type_synonym uchar = "8 word"

type_synonym intimage_type = "64 word"

type_synonym uint64 = "64 word"

type_synonym Vec3b = "uchar \<times> uchar \<times> uchar"

type_synonym Vec3f = "real \<times> real \<times> real"

record 'p Mat =
  rows :: nat
  cols :: nat
  px :: "nat \<Rightarrow> nat \<Rightarrow> 'p"

datatype image = Gray8 "uchar Mat" | BGR8 "Vec3b Mat"

definition image_cols :: "image \<Rightarrow> nat" where
  "image_cols img = (case img of Gray8 m \<Rightarrow> cols m | BGR8 m \<Rightarrow> cols m)"

definition image_rows :: "image \<Rightarrow> nat" where
  "image_rows img = (case img of Gray8 m \<Rightarrow> rows m | BGR8 m \<Rightarrow> rows m)"

definition image_at :: "image \<Rightarrow> nat \<Rightarrow> nat \<Rightarrow> uchar list" where
  "image_at img y x =
     (case img of
        Gray8 m \<Rightarrow> [px m y x]
      | BGR8 m \<Rightarrow> (case px m y x of (b, g, r) \<Rightarrow> [b, g, r]))"

text \<open>
  \<open>at_put m y x v\<close> is the assignment \<open>m.at<T>(y, x) = v\<close>. \<open>for_yx h w body\<close> is the
  loop nest \<open>for (y = 0; y < h; y++) for (x = 0; x < w; x++) body\<close> over a state;
  \<open>for_yx_option\<close> is the same nest when the assigned value may be undefined (the whole
  result is then undefined).
\<close>

definition at_put :: "'p Mat \<Rightarrow> nat \<Rightarrow> nat \<Rightarrow> 'p \<Rightarrow> 'p Mat" where
  "at_put m y x v = m\<lparr>px := (px m)(y := (px m y)(x := v))\<rparr>"

definition for_yx :: "nat \<Rightarrow> nat \<Rightarrow> (nat \<Rightarrow> nat \<Rightarrow> 's \<Rightarrow> 's) \<Rightarrow> 's \<Rightarrow> 's" where
  "for_yx h w body s = fold (\<lambda>y. fold (\<lambda>x. body y x) [0..<w]) [0..<h] s"

definition for_yx_option ::
  "nat \<Rightarrow> nat \<Rightarrow> (nat \<Rightarrow> nat \<Rightarrow> 'p Mat \<Rightarrow> 'p option) \<Rightarrow> 'p Mat \<Rightarrow> 'p Mat option" where
  "for_yx_option h w f m0 =
     for_yx h w
       (\<lambda>y x s. case s of
                  None \<Rightarrow> None
                | Some m \<Rightarrow> (case f y x m of None \<Rightarrow> None | Some v \<Rightarrow> Some (at_put m y x v)))
       (Some m0)"

definition mat_map :: "('a \<Rightarrow> 'b) \<Rightarrow> 'a Mat \<Rightarrow> 'b Mat" where
  "mat_map f m = \<lparr>rows = rows m, cols = cols m, px = (\<lambda>y x. f (px m y x))\<rparr>"

definition mat_defined :: "'p option Mat \<Rightarrow> 'p Mat option" where
  "mat_defined m =
     (if list_all (\<lambda>y. list_all (\<lambda>x. px m y x \<noteq> None) [0..<cols m]) [0..<rows m]
      then Some (mat_map the m) else None)"

definition mat_elements :: "'p Mat \<Rightarrow> 'p list" where
  "mat_elements m = concat (map (\<lambda>y. map (\<lambda>x. px m y x) [0..<cols m]) [0..<rows m])"

definition vec3_map :: "('a \<Rightarrow> 'b) \<Rightarrow> 'a \<times> 'a \<times> 'a \<Rightarrow> 'b \<times> 'b \<times> 'b" where
  "vec3_map f v = (case v of (b, g, r) \<Rightarrow> (f b, f g, f r))"

definition vec3_option :: "'a option \<times> 'a option \<times> 'a option \<Rightarrow> ('a \<times> 'a \<times> 'a) option" where
  "vec3_option v =
     (case v of
        (Some a, Some b, Some c) \<Rightarrow> Some (a, b, c)
      | _ \<Rightarrow> None)"

text \<open>
  \<open>copyMakeBorder\<close> with \<open>BORDER_REPLICATE\<close>: the border repeats the nearest edge element.
  The other OpenCV functions are collaborators whose results the sources only read:
  the properties hold for every choice of them.
\<close>

definition copyMakeBorder :: "'p Mat \<Rightarrow> nat \<Rightarrow> nat \<Rightarrow> nat \<Rightarrow> nat \<Rightarrow> 'p Mat" where
  "copyMakeBorder src ptop pbottom pleft pright =
     \<lparr>rows = rows src + ptop + pbottom,
      cols = cols src + pleft + pright,
      px = (\<lambda>y x. px src (min (y - ptop) (rows src - 1)) (min (x - pleft) (cols src - 1)))\<rparr>"

record opencv =
  cvtColor_BGR2GRAY :: "image \<Rightarrow> uchar Mat option"
  distanceTransform_L2 :: "uchar Mat \<Rightarrow> real Mat"
  distanceTransform_L1 :: "uchar Mat \<Rightarrow> real Mat"
  floodFill :: "uchar Mat \<Rightarrow> nat \<Rightarrow> nat \<Rightarrow> uchar \<Rightarrow> uchar Mat"
  filter2D_32F :: "real Mat \<Rightarrow> real list list \<Rightarrow> real Mat"
  filter2D_32FC3 :: "Vec3f Mat \<Rightarrow> real list list \<Rightarrow> Vec3f Mat"
  GaussianBlur_8U :: "uchar Mat \<Rightarrow> nat \<Rightarrow> uchar Mat"
  GaussianBlur_8UC3 :: "Vec3b Mat \<Rightarrow> nat \<Rightarrow> Vec3b Mat"

section \<open>Doubles and conversions\<close>

text \<open>
  A \<open>double\<close> is a real number or NaN. Every function that computes with doubles takes
  the rounding \<open>rd\<close> applied to the result of each operation: \<open>exact\<close> is no rounding
  (real arithmetic), \<open>round_double\<close> is IEEE-754 binary64 rounding to nearest, ties to
  even, with 53 significant bits and gradual underflow (\<open>binade_ulp\<close> finds the spacing of
  the doubles around a value by at most 2200 halvings or doublings, more than the exponent
  range needs; overflow to infinity is outside the model, none of the values below is near
  \<open>2^1024\<close>). The parameters read from the command line are finite reals here.

  \<open>sqrt\<close> of a negative double is NaN (\<open>None\<close>). The conversion of a double to \<open>int\<close> or
  to \<open>unsigned char\<close> truncates towards zero and is undefined (\<open>None\<close>) when the truncated
  value is not representable; a NaN that reaches such a conversion is \<open>None\<close> as well.
  \<open>saturate_uchar\<close> is OpenCV's \<open>saturate_cast<uchar>\<close> of \<open>convertTo\<close>.
\<close>

definition exact :: "real \<Rightarrow> real" where
  "exact r = r"

definition round_half_even :: "real \<Rightarrow> int" where
  "round_half_even r =
     (let f = \<lfloor>r\<rfloor>; d = r - real_of_int f
      in if d < 1 / 2 then f else if 1 / 2 < d then f + 1 else if even f then f else f + 1)"



definition c_sqrt :: "(real \<Rightarrow> real) \<Rightarrow> real \<Rightarrow> real option" where
  "c_sqrt rd r = (if r < 0 then None else Some (rd (sqrt r)))"

definition truncate_real :: "real \<Rightarrow> int" where
  "truncate_real r = (if 0 \<le> r then \<lfloor>r\<rfloor> else \<lceil>r\<rceil>)"

definition double_to_int :: "real \<Rightarrow> int option" where
  "double_to_int r =
     (if - 2147483649 < r \<and> r < 2147483648 then Some (truncate_real r) else None)"

definition double_to_uchar :: "real \<Rightarrow> uchar option" where
  "double_to_uchar r = (if - 1 < r \<and> r < 256 then Some (word_of_int (truncate_real r)) else None)"

definition cvRound :: "real \<Rightarrow> int" where
  "cvRound r = round_half_even r"

definition saturate_uchar :: "real \<Rightarrow> uchar" where
  "saturate_uchar r = word_of_int (max 0 (min 255 (cvRound r)))"

definition uchar_to_float :: "uchar \<Rightarrow> real" where
  "uchar_to_float v = real (unat v)"

section \<open>binarize-sauvola\<close>

text \<open>
  The global parameters are a record; \<open>argparse_accepts\<close> is the conjunction of the range
  checks of \<open>argparse\<close> (each option's check, and the check of R-scale for the variable
  outputs after the loop).
\<close>

datatype ProgramMode = OUT_BINARY | OUT_THRESHOLD | OUT_PIXELINFO | OUT_VARIABLE | OUT_VARIABLE_MULTIW

definition windowSizeLimit :: nat where
  "windowSizeLimit = 16843009"

definition INT_MAX :: int where
  "INT_MAX = 2147483647"

record config =
  programMode :: ProgramMode
  windowSize :: nat
  kParam :: real
  rScale :: real
  tScale :: real
  tBias :: real

definition argparse_accepts :: "config \<Rightarrow> bool" where
  "argparse_accepts cfg \<longleftrightarrow>
     \<not> windowSize cfg < 1 \<and> \<not> windowSize cfg > windowSizeLimit \<and>
     \<not> kParam cfg < 0 \<and> \<not> rScale cfg \<le> 0 \<and> \<not> tScale cfg \<le> 0 \<and>
     \<not> ((programMode cfg = OUT_VARIABLE \<or> programMode cfg = OUT_VARIABLE_MULTIW) \<and> rScale cfg < 1)"

definition win_n :: "nat \<Rightarrow> nat" where
  "win_n wsize = (if wsize mod 2 \<noteq> 0 then wsize div 2 + 1 else wsize div 2)"

definition win_p :: "nat \<Rightarrow> nat" where
  "win_p wsize = wsize div 2"

text \<open>
  The two integral images: \<open>buffer1\<close> and \<open>buffer2\<close> are flat arrays of 64-bit unsigned
  integers, filled by the loop over the first row and then by the loop over the other rows.
  The state of a row loop is \<open>(accum1, accum2, buffer1, buffer2)\<close>. The arrays come from
  \<open>new[]\<close>; every cell is written before it is read, so their first content (here 0) does
  not matter.
\<close>

type_synonym accum_state =
  "intimage_type \<times> intimage_type \<times> (nat \<Rightarrow> intimage_type) \<times> (nat \<Rightarrow> intimage_type)"

definition first_row_step :: "uchar Mat \<Rightarrow> nat \<Rightarrow> accum_state \<Rightarrow> accum_state" where
  "first_row_step padimg x s = (case s of (accum1, accum2, buffer1, buffer2) \<Rightarrow>
     let v = (ucast (px padimg 0 x) :: intimage_type);
         accum1 = accum1 + v;
         accum2 = accum2 + v * v
     in (accum1, accum2, buffer1(x := accum1), buffer2(x := accum2)))"

definition next_row_step :: "uchar Mat \<Rightarrow> nat \<Rightarrow> nat \<Rightarrow> nat \<Rightarrow> accum_state \<Rightarrow> accum_state" where
  "next_row_step padimg pw y x s = (case s of (accum1, accum2, buffer1, buffer2) \<Rightarrow>
     let v = (ucast (px padimg y x) :: intimage_type);
         accum1 = accum1 + v;
         accum2 = accum2 + v * v
     in (accum1, accum2,
         buffer1(pw * y + x := accum1 + buffer1 (pw * (y - 1) + x)),
         buffer2(pw * y + x := accum2 + buffer2 (pw * (y - 1) + x))))"

definition next_row ::
  "uchar Mat \<Rightarrow> nat \<Rightarrow> nat \<Rightarrow> (nat \<Rightarrow> intimage_type) \<times> (nat \<Rightarrow> intimage_type)
     \<Rightarrow> (nat \<Rightarrow> intimage_type) \<times> (nat \<Rightarrow> intimage_type)" where
  "next_row padimg pw y bs = (case bs of (buffer1, buffer2) \<Rightarrow>
     (case fold (next_row_step padimg pw y) [0..<pw] (0, 0, buffer1, buffer2) of
        (accum1, accum2, buffer1', buffer2') \<Rightarrow> (buffer1', buffer2')))"

definition integral_images ::
  "uchar Mat \<Rightarrow> nat \<Rightarrow> nat \<Rightarrow> (nat \<Rightarrow> intimage_type) \<times> (nat \<Rightarrow> intimage_type)" where
  "integral_images padimg pw ph =
     (case fold (first_row_step padimg) [0..<pw] (0, 0, (\<lambda>i. 0), (\<lambda>i. 0)) of
        (accum1, accum2, buffer1, buffer2) \<Rightarrow>
          fold (next_row padimg pw) [1..<ph] (buffer1, buffer2))"

definition window_total :: "(nat \<Rightarrow> intimage_type) \<Rightarrow> nat \<Rightarrow> nat \<Rightarrow> nat \<Rightarrow> nat \<Rightarrow> intimage_type" where
  "window_total buffer pw wsize y x =
     (let Y0 = pw * y; Y1 = pw * (y + wsize)
      in buffer (Y1 + (x + wsize)) - buffer (Y1 + x) + buffer (Y0 + x) - buffer (Y0 + (x + wsize)))"

definition window_stats ::
  "(real \<Rightarrow> real) \<Rightarrow> (nat \<Rightarrow> intimage_type) \<Rightarrow> (nat \<Rightarrow> intimage_type) \<Rightarrow> nat \<Rightarrow> nat \<Rightarrow> real
     \<Rightarrow> nat \<Rightarrow> nat \<Rightarrow> real \<times> real option" where
  "window_stats rd buffer1 buffer2 pw wsize invsqWindow y x =
     (let total1 = window_total buffer1 pw wsize y x;
          total2 = window_total buffer2 pw wsize y x;
          mean = rd (rd (real (unat total1)) * invsqWindow);
          stddev = c_sqrt rd (rd (rd (rd (real (unat total2)) * invsqWindow) - rd (mean * mean)))
      in (mean, stddev))"

text \<open>
  The body of the pixel loop. \<open>sauvola_pixel\<close> is the value stored in \<open>dst\<close>: the variable
  output when \<open>oVariable\<close> holds, else the threshold or the binary decision
  (for the pixel-info output the binary decision is still stored in \<open>dst\<close>; the 3-channel
  \<open>realdst\<close> of the pixel-info and multi-window outputs is not modelled).
  \<open>sauvola_pass\<close> is one turn of the loop over the window sizes, from the padding to the
  last pixel; each pixel of \<open>dst\<close> is assigned once, from the buffers and \<open>padimg\<close> only.
\<close>

definition variable_bounds ::
  "(real \<Rightarrow> real) \<Rightarrow> real \<Rightarrow> real \<Rightarrow> real \<Rightarrow> real \<Rightarrow> real \<Rightarrow> real \<times> real" where
  "variable_bounds rd tscale rParam tRealBias mean stddev =
     (let th1 = rd (tscale * mean);
          th0 = rd (th1 * rd (1 + rd (rd (stddev / rParam) - 1)));
          th0 = rd (th0 + tRealBias);
          th1 = rd (th1 + tRealBias)
      in (th0, th1))"

definition sauvola_threshold ::
  "(real \<Rightarrow> real) \<Rightarrow> real \<Rightarrow> real \<Rightarrow> real \<Rightarrow> real \<Rightarrow> real \<Rightarrow> real \<Rightarrow> real" where
  "sauvola_threshold rd tscale k rParam tRealBias mean stddev =
     rd (rd (rd (tscale * mean) * rd (1 + rd (k * rd (rd (stddev / rParam) - 1)))) + tRealBias)"

definition sauvola_pixel ::
  "(real \<Rightarrow> real) \<Rightarrow> config \<Rightarrow> real \<Rightarrow> real \<Rightarrow> real \<Rightarrow> real option \<Rightarrow> uchar \<Rightarrow> uchar option" where
  "sauvola_pixel rd cfg rParam tRealBias mean stddev center =
     (case stddev of
        None \<Rightarrow> None
      | Some sd \<Rightarrow>
          if programMode cfg = OUT_VARIABLE \<or> programMode cfg = OUT_VARIABLE_MULTIW then
            (case variable_bounds rd (tScale cfg) rParam tRealBias mean sd of
               (th0, th1) \<Rightarrow>
                 let v = real (unat center);
                     v = max (min v th1) th0
                 in if rd (th1 - th0) = 0 then None
                    else double_to_uchar (rd (rd (255 * rd (v - th0)) / rd (th1 - th0))))
          else
            (case double_to_int
                    (sauvola_threshold rd (tScale cfg) (kParam cfg) rParam tRealBias mean sd) of
               None \<Rightarrow> None
             | Some threshold \<Rightarrow>
                 if programMode cfg = OUT_THRESHOLD then Some (word_of_int threshold)
                 else Some (if uint center > threshold then 255 else 0)))"

definition sauvola_pass ::
  "(real \<Rightarrow> real) \<Rightarrow> config \<Rightarrow> uchar Mat \<Rightarrow> nat \<Rightarrow> uchar option Mat" where
  "sauvola_pass rd cfg img wsize =
     (let w = cols img; h = rows img;
          rParam = rd (rScale cfg * (255 * 0.5));
          tRealBias = rd (255 * tBias cfg);
          pw = w + wsize; ph = h + wsize;
          invsqWindow = rd (rd (1 / real wsize) / real wsize);
          padimg = copyMakeBorder img (win_n wsize) (win_p wsize) (win_n wsize) (win_p wsize)
      in case integral_images padimg pw ph of
           (buffer1, buffer2) \<Rightarrow>
             \<lparr>rows = h, cols = w,
              px = (\<lambda>y x.
                 case window_stats rd buffer1 buffer2 pw wsize invsqWindow y x of
                   (mean, stddev) \<Rightarrow>
                     sauvola_pixel rd cfg rParam tRealBias mean stddev
                       (px padimg (y + win_n wsize) (x + win_n wsize)))\<rparr>)"

definition pad_size_too_big :: "nat \<Rightarrow> nat \<Rightarrow> nat \<Rightarrow> bool" where
  "pad_size_too_big w h wsize \<longleftrightarrow>
     INT_MAX - int wsize < int w \<or> INT_MAX - int wsize < int h \<or>
     INT_MAX div (int w + int wsize) < int h + int wsize"

section \<open>isolate-bg\<close>

text \<open>
  \<open>binarizeUsingSauvola\<close> returns \<open>false\<close> (\<open>None\<close>) on an empty image or when the
  padded size does not fit an \<open>int\<close>.
\<close>

definition binarizeUsingSauvola ::
  "(real \<Rightarrow> real) \<Rightarrow> uchar Mat \<Rightarrow> nat \<Rightarrow> real \<Rightarrow> real \<Rightarrow> (uchar option Mat) option" where
  "binarizeUsingSauvola rd src integralWindowSize kParam' rScale' =
     (let w = cols src; h = rows src;
          rParam = rd (rScale' * (255 * 0.5))
      in if w = 0 \<or> h = 0 \<or> pad_size_too_big w h integralWindowSize then None
         else
           let pw = w + integralWindowSize; ph = h + integralWindowSize;
               invsqWindow = rd (rd (1 / real integralWindowSize) / real integralWindowSize);
               padimg = copyMakeBorder src (win_n integralWindowSize) (win_p integralWindowSize)
                           (win_n integralWindowSize) (win_p integralWindowSize)
           in case integral_images padimg pw ph of
                (buffer1, buffer2) \<Rightarrow>
                  Some \<lparr>rows = h, cols = w,
                    px = (\<lambda>y x.
                      case window_stats rd buffer1 buffer2 pw integralWindowSize invsqWindow y x of
                        (mean, None) \<Rightarrow> None
                      | (mean, Some stddev) \<Rightarrow>
                          (case double_to_int
                                  (rd (mean * rd (1 + rd (kParam' * rd (rd (stddev / rParam) - 1))))) of
                             None \<Rightarrow> None
                           | Some threshold \<Rightarrow>
                               Some (if uint (px padimg (y + win_n integralWindowSize)
                                                        (x + win_n integralWindowSize)) > threshold
                                     then 255 else 0)))\<rparr>)"

definition maskInvert :: "uchar Mat \<Rightarrow> uchar Mat" where
  "maskInvert img =
     for_yx (rows img) (cols img) (\<lambda>y x m. at_put m y x (255 - px m y x)) img"

definition maskInset :: "opencv \<Rightarrow> uchar Mat \<Rightarrow> real \<Rightarrow> uchar Mat" where
  "maskInset cv img width =
     (let tmp = distanceTransform_L2 cv img
      in for_yx (rows img) (cols img)
           (\<lambda>y x m. at_put m y x (if px tmp y x \<le> width then 0 else 255)) img)"

text \<open>
  \<open>fastInpaint\<close>. The search for the nearest unmasked pixel walks the rings of L1 radius
  \<open>d = 1, 2, ...\<close> in the order of the source (\<open>ring_candidates\<close>) and takes the first
  unmasked pixel inside the image. The source's loop over \<open>d\<close> has no bound; rings of radius
  above \<open>w + h\<close> hold no pixel of the image, so \<open>ring_search\<close> answers \<open>None\<close> there: the
  source would not return. \<open>fastInpaint\<close> returns \<open>None\<close> in that case, and otherwise
  the flag and \<open>dst\<close>. The two element types (\<open>fastInpaint_8U\<close>, \<open>fastInpaint_8UC3\<close>)
  are the two branches on \<open>src.channels()\<close>.
\<close>

datatype InpaintInitMode = ISOBG_INPAINT_INIT_MEAN | ISOBG_INPAINT_INIT_NEIGHBOR_L1

definition inpaint_kernel :: "real list list" where
  "inpaint_kernel =
     (let a = 0.073235; b = 0.176765 in [[a, b, a], [b, 0, b], [a, b, a]])"

definition ring_candidates :: "int \<Rightarrow> int \<Rightarrow> nat \<Rightarrow> (int \<times> int) list" where
  "ring_candidates x y d =
     concat (map (\<lambda>k. [(x + int k, y - int d + int k),
                        (x + int d - int k, y + int k),
                        (x - int k, y + int d - int k),
                        (x - int d + int k, y - int k)]) [0..<d])"

definition is_donor :: "uchar Mat \<Rightarrow> nat \<Rightarrow> nat \<Rightarrow> int \<times> int \<Rightarrow> bool" where
  "is_donor msk w h c =
     (case c of (X, Y) \<Rightarrow>
        X \<ge> 0 \<and> X < int w \<and> Y \<ge> 0 \<and> Y < int h \<and> px msk (nat Y) (nat X) = 0)"

function ring_search :: "uchar Mat \<Rightarrow> nat \<Rightarrow> nat \<Rightarrow> nat \<Rightarrow> nat \<Rightarrow> nat \<Rightarrow> (int \<times> int) option" where
  "ring_search msk w h x y d =
     (if w + h < d then None
      else (case find (is_donor msk w h) (ring_candidates (int x) (int y) d) of
              Some c \<Rightarrow> Some c
            | None \<Rightarrow> ring_search msk w h x y (Suc d)))"
  by pat_completeness auto

termination
  by (relation "measure (\<lambda>(msk, w, h, x, y, d). Suc (w + h) - d)") auto

declare ring_search.simps [simp del]

definition neighbor_fill :: "uchar Mat \<Rightarrow> nat \<Rightarrow> nat \<Rightarrow> 'p Mat \<Rightarrow> 'p Mat option" where
  "neighbor_fill msk w h dst =
     for_yx h w
       (\<lambda>y x s.
          case s of
            None \<Rightarrow> None
          | Some dst \<Rightarrow>
              if px msk y x \<noteq> 0 then
                (case ring_search msk w h x y 1 of
                   None \<Rightarrow> None
                 | Some (X, Y) \<Rightarrow> Some (at_put dst y x (px dst (nat Y) (nat X))))
              else Some dst)
       (Some dst)"

definition pixelExists :: "uchar Mat \<Rightarrow> nat \<Rightarrow> nat \<Rightarrow> bool" where
  "pixelExists msk w h = list_ex (\<lambda>y. list_ex (\<lambda>x. px msk y x = 0) [0..<w]) [0..<h]"

definition fill_masked :: "uchar Mat \<Rightarrow> nat \<Rightarrow> nat \<Rightarrow> 'p \<Rightarrow> 'p Mat \<Rightarrow> 'p Mat" where
  "fill_masked msk w h v dst =
     for_yx h w (\<lambda>y x m. if px msk y x \<noteq> 0 then at_put m y x v else m) dst"

definition diffuse :: "('f Mat \<Rightarrow> 'f Mat) \<Rightarrow> uchar Mat \<Rightarrow> nat \<Rightarrow> nat \<Rightarrow> nat \<Rightarrow> 'f Mat \<Rightarrow> 'f Mat" where
  "diffuse filt msk w h iterations dst =
     fold (\<lambda>i dst.
        let tmp = filt dst
        in for_yx h w (\<lambda>y x m. if px msk y x \<noteq> 0 then at_put m y x (px tmp y x) else m) dst)
       [0..<iterations] dst"

definition fastInpaint_8U ::
  "opencv \<Rightarrow> uchar Mat \<Rightarrow> uchar Mat \<Rightarrow> InpaintInitMode \<Rightarrow> nat \<Rightarrow> (bool \<times> uchar Mat) option" where
  "fastInpaint_8U cv src msk initMode iterations =
     (let dst = src; w = cols src; h = rows src;
          finish = (\<lambda>dst. (True,
             mat_map saturate_uchar
               (diffuse (\<lambda>m. filter2D_32F cv m inpaint_kernel) msk w h iterations
                  (mat_map uchar_to_float dst))))
      in case initMode of
           ISOBG_INPAINT_INIT_MEAN \<Rightarrow>
             (case for_yx h w
                     (\<lambda>y x (totalR, pixels).
                        if px msk y x = 0
                        then (totalR + ucast (px src y x), pixels + 1)
                        else (totalR, pixels))
                     (0 :: uint64, 0 :: uint64) of
                (totalR, pixels) \<Rightarrow>
                  if pixels = 0 then Some (False, dst)
                  else
                    let meanR = (ucast (totalR div pixels) :: uchar)
                    in Some (finish (fill_masked msk w h meanR dst)))
         | ISOBG_INPAINT_INIT_NEIGHBOR_L1 \<Rightarrow>
             if \<not> pixelExists msk w h then Some (False, dst)
             else map_option finish (neighbor_fill msk w h dst))"

definition fastInpaint_8UC3 ::
  "opencv \<Rightarrow> Vec3b Mat \<Rightarrow> uchar Mat \<Rightarrow> InpaintInitMode \<Rightarrow> nat \<Rightarrow> (bool \<times> Vec3b Mat) option" where
  "fastInpaint_8UC3 cv src msk initMode iterations =
     (let dst = src; w = cols src; h = rows src;
          finish = (\<lambda>dst. (True,
             mat_map (vec3_map saturate_uchar)
               (diffuse (\<lambda>m. filter2D_32FC3 cv m inpaint_kernel) msk w h iterations
                  (mat_map (vec3_map uchar_to_float) dst))))
      in case initMode of
           ISOBG_INPAINT_INIT_MEAN \<Rightarrow>
             (case for_yx h w
                     (\<lambda>y x (totalR, totalG, totalB, pixels).
                        if px msk y x = 0
                        then (case px src y x of
                                (v0, v1, v2) \<Rightarrow>
                                  (totalR + ucast v2, totalG + ucast v1, totalB + ucast v0,
                                   pixels + 1))
                        else (totalR, totalG, totalB, pixels))
                     (0 :: uint64, 0 :: uint64, 0 :: uint64, 0 :: uint64) of
                (totalR, totalG, totalB, pixels) \<Rightarrow>
                  if pixels = 0 then Some (False, dst)
                  else
                    let meanR = (ucast (totalR div pixels) :: uchar);
                        meanG = (ucast (totalG div pixels) :: uchar);
                        meanB = (ucast (totalB div pixels) :: uchar)
                    in Some (finish (fill_masked msk w h (meanB, meanG, meanR) dst)))
         | ISOBG_INPAINT_INIT_NEIGHBOR_L1 \<Rightarrow>
             if \<not> pixelExists msk w h then Some (False, dst)
             else map_option finish (neighbor_fill msk w h dst))"

definition fastInpaint ::
  "opencv \<Rightarrow> image \<Rightarrow> uchar Mat \<Rightarrow> InpaintInitMode \<Rightarrow> nat \<Rightarrow> (bool \<times> image) option" where
  "fastInpaint cv src msk initMode iterations =
     (case src of
        Gray8 s \<Rightarrow>
          map_option (\<lambda>(ok, dst). (ok, Gray8 dst)) (fastInpaint_8U cv s msk initMode iterations)
      | BGR8 s \<Rightarrow>
          map_option (\<lambda>(ok, dst). (ok, BGR8 dst)) (fastInpaint_8UC3 cv s msk initMode iterations))"

text \<open>
  \<open>main\<close>. The run ends as \<open>Exit_failure\<close> (\<open>return 1\<close>: the image could not be loaded),
  as \<open>Written img\<close> (\<open>imwrite\<close> and \<open>return 0\<close>), as \<open>Abnormal\<close> (an OpenCV exception or
  undefined behaviour: a conversion of an unrepresentable double, or the empty mask left by
  a failed \<open>binarizeUsingSauvola\<close>) or does not return. The results of
  \<open>binarizeUsingSauvola\<close> and of \<open>fastInpaint\<close> are not tested by \<open>main\<close>.
\<close>

datatype IsolateBgMode = OUT_NORMALIZED_IMAGE | OUT_BACKGROUND

record isolate_bg_config =
  outputMode :: IsolateBgMode
  inputAsGrayscale :: bool
  adjustBrightness :: bool
  integralWindowSize :: nat
  kParam_bg :: real
  rScale_bg :: real
  inpaintInitMode :: InpaintInitMode
  inpaintIterations :: nat
  maskDenoiseDistance1 :: real
  maskDenoiseDistance2 :: real
  backgroundBlur :: nat
  backgroundAlpha :: real

datatype outcome = Exit_failure | Abnormal | No_return | Written image

definition normalize_value :: "(real \<Rightarrow> real) \<Rightarrow> real \<Rightarrow> uchar \<Rightarrow> uchar \<Rightarrow> uchar option" where
  "normalize_value rd alpha vI vB =
     (let num = rd (alpha * real (unat vI))
      in if vB = 0 then (if 0 < num then Some 255 else None)
         else double_to_uchar (rd (min (max (rd (num / real (unat vB))) 0) 1 * 255)))"

definition normalize_image ::
  "(real \<Rightarrow> real) \<Rightarrow> real \<Rightarrow> nat \<Rightarrow> nat \<Rightarrow> image \<Rightarrow> image \<Rightarrow> image option" where
  "normalize_image rd alpha w h img bg =
     (case (img, bg) of
        (BGR8 i, BGR8 b) \<Rightarrow>
          map_option BGR8
            (for_yx_option h w
               (\<lambda>y x m. case (px m y x, px b y x) of
                    ((i0, i1, i2), (b0, b1, b2)) \<Rightarrow>
                      vec3_option (normalize_value rd alpha i0 b0,
                                   normalize_value rd alpha i1 b1,
                                   normalize_value rd alpha i2 b2)) i)
      | (Gray8 i, Gray8 b) \<Rightarrow>
          map_option Gray8
            (for_yx_option h w (\<lambda>y x m. normalize_value rd alpha (px m y x) (px b y x)) i)
      | _ \<Rightarrow> None)"

definition stretch_value :: "(real \<Rightarrow> real) \<Rightarrow> real \<Rightarrow> real \<Rightarrow> uchar \<Rightarrow> real" where
  "stretch_value rd Emin Escale v = rd (rd (real (unat v) - Emin) * Escale)"

definition adjust_brightness ::
  "(real \<Rightarrow> real) \<Rightarrow> opencv \<Rightarrow> nat \<Rightarrow> nat \<Rightarrow> image \<Rightarrow> image option" where
  "adjust_brightness rd cv w h img =
     (case (case img of BGR8 c \<Rightarrow> cvtColor_BGR2GRAY cv img | Gray8 g \<Rightarrow> Some g) of
        None \<Rightarrow> None
      | Some tmp \<Rightarrow>
          (case mat_elements tmp of
             [] \<Rightarrow> None
           | e # es \<Rightarrow>
               let Emin = real (unat (fold min es e));
                   Emax = real (unat (fold max es e))
               in if Emin < Emax then
                    let Escale = rd (255 / rd (Emax - Emin))
                    in (case img of
                          BGR8 i \<Rightarrow>
                            map_option BGR8
                              (for_yx_option h w
                                 (\<lambda>y x m. case px m y x of
                                      (c0, c1, c2) \<Rightarrow>
                                        vec3_option
                                          (double_to_uchar (min (max (stretch_value rd Emin Escale c0) 0) 255),
                                           double_to_uchar (min (max (stretch_value rd Emin Escale c1) 0) 255),
                                           double_to_uchar (min (max (stretch_value rd Emin Escale c2) 0) 255))) i)
                        | Gray8 i \<Rightarrow>
                            map_option Gray8
                              (for_yx_option h w
                                 (\<lambda>y x m. double_to_uchar (stretch_value rd Emin Escale (px m y x))) i))
                  else Some img))"

definition refine_mask :: "opencv \<Rightarrow> isolate_bg_config \<Rightarrow> uchar Mat \<Rightarrow> uchar Mat" where
  "refine_mask cv cfg tmp =
     (let tmp = maskInvert tmp;
          tmp = maskInset cv tmp (maskDenoiseDistance1 cfg);
          tmp = maskInvert tmp;
          tmp = maskInset cv tmp (maskDenoiseDistance2 cfg);
          tmp = maskInvert tmp
      in tmp)"

definition isolate_bg_output ::
  "(real \<Rightarrow> real) \<Rightarrow> opencv \<Rightarrow> isolate_bg_config \<Rightarrow> image \<Rightarrow> image \<Rightarrow> outcome" where
  "isolate_bg_output rd cv cfg img bg =
     (let w = image_cols img; h = image_rows img;
          bg = (if backgroundBlur cfg \<noteq> 1
                then (case bg of
                        Gray8 m \<Rightarrow> Gray8 (GaussianBlur_8U cv m (backgroundBlur cfg))
                      | BGR8 m \<Rightarrow> BGR8 (GaussianBlur_8UC3 cv m (backgroundBlur cfg)))
                else bg)
      in case (case outputMode cfg of
                 OUT_NORMALIZED_IMAGE \<Rightarrow> normalize_image rd (backgroundAlpha cfg) w h img bg
               | OUT_BACKGROUND \<Rightarrow> Some bg) of
           None \<Rightarrow> Abnormal
         | Some img \<Rightarrow>
             if adjustBrightness cfg then
               (case adjust_brightness rd cv w h img of
                  None \<Rightarrow> Abnormal
                | Some img \<Rightarrow> Written img)
             else Written img)"

definition isolate_bg_main ::
  "(real \<Rightarrow> real) \<Rightarrow> opencv \<Rightarrow> isolate_bg_config \<Rightarrow> image option \<Rightarrow> outcome" where
  "isolate_bg_main rd cv cfg loaded =
     (case loaded of
        None \<Rightarrow> Exit_failure
      | Some img \<Rightarrow>
          (case (if inputAsGrayscale cfg then map_option Gray8 (cvtColor_BGR2GRAY cv img)
                 else Some img) of
             None \<Rightarrow> Abnormal
           | Some img \<Rightarrow>
               (case (case img of BGR8 c \<Rightarrow> cvtColor_BGR2GRAY cv img | Gray8 g \<Rightarrow> Some g) of
                  None \<Rightarrow> Abnormal
                | Some tmp2 \<Rightarrow>
                    (case binarizeUsingSauvola rd tmp2 (integralWindowSize cfg)
                            (kParam_bg cfg) (rScale_bg cfg) of
                       None \<Rightarrow> Abnormal
                     | Some binarized \<Rightarrow>
                         (case mat_defined binarized of
                            None \<Rightarrow> Abnormal
                          | Some tmp \<Rightarrow>
                              (case fastInpaint cv img (refine_mask cv cfg tmp)
                                      (inpaintInitMode cfg) (inpaintIterations cfg) of
                                 None \<Rightarrow> No_return
                               | Some (ok, bg) \<Rightarrow> isolate_bg_output rd cv cfg img bg))))))"

section \<open>mask-op\<close>

text \<open>
  \<open>argparse\<close> reads the options left to right (\<open>parsed_option\<close>: what \<open>getopt_long\<close> and
  \<open>argparse_double\<close> return for one option) and appends commands; it ends the process
  (\<open>Inl\<close> the exit status) on \<open>-h\<close>, \<open>-v\<close> and on an unknown option. \<open>width_commands\<close>
  is the block for the options \<open>-i\<close>, \<open>-I\<close>, \<open>-o\<close> and \<open>-O\<close>. \<open>main\<close> runs the
  commands in order on the loaded mask.
\<close>

datatype ProgramOp = MASK_CMD_NEG | MASK_CMD_FILL_BORDER | MASK_CMD_INSET_L2 | MASK_CMD_INSET_L1

record ProgramCommand =
  op :: ProgramOp
  dist_arg :: real

datatype parsed_option = Opt char | OptArg char real

definition width_commands :: "char \<Rightarrow> real \<Rightarrow> ProgramCommand list" where
  "width_commands opt width0 =
     (let realopt =
            (if width0 < 0 then
               (if opt = CHR ''i'' then CHR ''o''
                else if opt = CHR ''I'' then CHR ''O''
                else if opt = CHR ''o'' then CHR ''i''
                else if opt = CHR ''O'' then CHR ''I''
                else opt)
             else opt);
          width = (if width0 < 0 then - width0 else width0)
      in if realopt = CHR ''i'' then [\<lparr>op = MASK_CMD_INSET_L2, dist_arg = width\<rparr>]
         else if realopt = CHR ''I'' then [\<lparr>op = MASK_CMD_INSET_L1, dist_arg = width\<rparr>]
         else if realopt = CHR ''o'' then
           [\<lparr>op = MASK_CMD_NEG, dist_arg = 0\<rparr>,
            \<lparr>op = MASK_CMD_INSET_L2, dist_arg = width\<rparr>,
            \<lparr>op = MASK_CMD_NEG, dist_arg = 0\<rparr>]
         else if realopt = CHR ''O'' then
           [\<lparr>op = MASK_CMD_NEG, dist_arg = 0\<rparr>,
            \<lparr>op = MASK_CMD_INSET_L1, dist_arg = width\<rparr>,
            \<lparr>op = MASK_CMD_NEG, dist_arg = 0\<rparr>]
         else [])"

fun mask_op_argparse :: "parsed_option list \<Rightarrow> ProgramCommand list \<Rightarrow> int + ProgramCommand list" where
  "mask_op_argparse [] commands = Inr commands"
| "mask_op_argparse (Opt c # rest) commands =
     (if c = CHR ''h'' then Inl 0
      else if c = CHR ''v'' then Inl 0
      else if c = CHR ''n'' then
        mask_op_argparse rest (commands @ [\<lparr>op = MASK_CMD_NEG, dist_arg = 0\<rparr>])
      else if c = CHR ''B'' then
        mask_op_argparse rest (commands @ [\<lparr>op = MASK_CMD_FILL_BORDER, dist_arg = 0\<rparr>])
      else Inl 1)"
| "mask_op_argparse (OptArg c width # rest) commands =
     (if c = CHR ''i'' \<or> c = CHR ''I'' \<or> c = CHR ''o'' \<or> c = CHR ''O'' then
        mask_op_argparse rest (commands @ width_commands c width)
      else Inl 1)"

definition run_command :: "opencv \<Rightarrow> nat \<Rightarrow> nat \<Rightarrow> ProgramCommand \<Rightarrow> uchar Mat \<Rightarrow> uchar Mat" where
  "run_command cv w h cmd img =
     (case op cmd of
        MASK_CMD_NEG \<Rightarrow> for_yx h w (\<lambda>y x m. at_put m y x (255 - px m y x)) img
      | MASK_CMD_FILL_BORDER \<Rightarrow>
          (let img = fold (\<lambda>x img.
                       let img = (if px img 0 x \<noteq> 0 then floodFill cv img x 0 0 else img)
                       in if px img (h - 1) x \<noteq> 0 then floodFill cv img x (h - 1) 0 else img)
                     [0..<w] img
           in fold (\<lambda>y img.
                 let img = (if px img y 0 \<noteq> 0 then floodFill cv img 0 y 0 else img)
                 in if px img y (w - 1) \<noteq> 0 then floodFill cv img (w - 1) y 0 else img)
               [0..<h] img)
      | MASK_CMD_INSET_L2 \<Rightarrow>
          (let tmp = distanceTransform_L2 cv img
           in for_yx h w (\<lambda>y x m. at_put m y x (if px tmp y x \<le> dist_arg cmd then 0 else 255)) img)
      | MASK_CMD_INSET_L1 \<Rightarrow>
          (let tmp = distanceTransform_L1 cv img
           in for_yx h w (\<lambda>y x m. at_put m y x (if px tmp y x \<le> dist_arg cmd then 0 else 255)) img))"

datatype mask_op_result = Exited int | Saved "uchar Mat"

definition mask_op_main :: "opencv \<Rightarrow> parsed_option list \<Rightarrow> uchar Mat option \<Rightarrow> mask_op_result" where
  "mask_op_main cv opts loaded =
     (case mask_op_argparse opts [] of
        Inl code \<Rightarrow> Exited code
      | Inr commands \<Rightarrow>
          (case loaded of
             None \<Rightarrow> Exited 1
           | Some img \<Rightarrow>
               Saved (fold (run_command cv (cols img) (rows img)) commands img)))"

section \<open>Notions of the specification\<close>

text \<open>
  What the properties are stated with: prefix sums, the sums and the list of samples of a
  pixel's window in the padded image, the arithmetic mean and the population standard
  deviation of a list, the threshold of the specification, and the values a pass computes
  at a pixel before it stores the output (\<open>pass_stats\<close>, \<open>pixel_threshold\<close>,
  \<open>pixel_bounds\<close>).
\<close>

definition row_sum1 :: "uchar Mat \<Rightarrow> nat \<Rightarrow> nat \<Rightarrow> intimage_type" where
  "row_sum1 padimg y n = (\<Sum>j<n. ucast (px padimg y j))"

definition row_sum2 :: "uchar Mat \<Rightarrow> nat \<Rightarrow> nat \<Rightarrow> intimage_type" where
  "row_sum2 padimg y n = (\<Sum>j<n. ucast (px padimg y j) * ucast (px padimg y j))"

definition integral1 :: "uchar Mat \<Rightarrow> nat \<Rightarrow> nat \<Rightarrow> intimage_type" where
  "integral1 padimg y x = (\<Sum>i\<le>y. row_sum1 padimg i (Suc x))"

definition integral2 :: "uchar Mat \<Rightarrow> nat \<Rightarrow> nat \<Rightarrow> intimage_type" where
  "integral2 padimg y x = (\<Sum>i\<le>y. row_sum2 padimg i (Suc x))"

definition rows_done ::
  "uchar Mat \<Rightarrow> nat \<Rightarrow> nat \<Rightarrow> (nat \<Rightarrow> intimage_type) \<times> (nat \<Rightarrow> intimage_type) \<Rightarrow> bool" where
  "rows_done padimg pw m bs \<longleftrightarrow>
     (\<forall>y<m. \<forall>x<pw. fst bs (pw * y + x) = integral1 padimg y x \<and>
                     snd bs (pw * y + x) = integral2 padimg y x)"

definition window_sum1 :: "uchar Mat \<Rightarrow> nat \<Rightarrow> nat \<Rightarrow> nat \<Rightarrow> nat" where
  "window_sum1 padimg wsize y x =
     (\<Sum>i = Suc y..y + wsize. \<Sum>j = Suc x..x + wsize. unat (px padimg i j))"

definition window_sum2 :: "uchar Mat \<Rightarrow> nat \<Rightarrow> nat \<Rightarrow> nat \<Rightarrow> nat" where
  "window_sum2 padimg wsize y x =
     (\<Sum>i = Suc y..y + wsize. \<Sum>j = Suc x..x + wsize. unat (px padimg i j) * unat (px padimg i j))"

definition window_samples :: "uchar Mat \<Rightarrow> nat \<Rightarrow> nat \<Rightarrow> nat \<Rightarrow> real list" where
  "window_samples padimg wsize y x =
     concat (map (\<lambda>i. map (\<lambda>j. real (unat (px padimg i j))) [Suc x..<Suc (x + wsize)])
                 [Suc y..<Suc (y + wsize)])"

definition mean_of :: "real list \<Rightarrow> real" where
  "mean_of vs = sum_list vs / real (length vs)"

definition stddev_of :: "real list \<Rightarrow> real" where
  "stddev_of vs = sqrt (sum_list (map (\<lambda>v. (v - mean_of vs)\<^sup>2) vs) / real (length vs))"

definition spec_threshold :: "real \<Rightarrow> real \<Rightarrow> real \<Rightarrow> real \<Rightarrow> real \<Rightarrow> real \<Rightarrow> real" where
  "spec_threshold tscale k R tbias mean stddev = tscale * mean * (1 + k * (stddev / R - 1)) + tbias"

definition pass_padimg :: "uchar Mat \<Rightarrow> nat \<Rightarrow> uchar Mat" where
  "pass_padimg img wsize = copyMakeBorder img (win_n wsize) (win_p wsize) (win_n wsize) (win_p wsize)"

definition pass_stats :: "(real \<Rightarrow> real) \<Rightarrow> uchar Mat \<Rightarrow> nat \<Rightarrow> nat \<Rightarrow> nat \<Rightarrow> real \<times> real option" where
  "pass_stats rd img wsize y x =
     (case integral_images (pass_padimg img wsize) (cols img + wsize) (rows img + wsize) of
        (buffer1, buffer2) \<Rightarrow>
          window_stats rd buffer1 buffer2 (cols img + wsize) wsize
            (rd (rd (1 / real wsize) / real wsize)) y x)"

definition pixel_threshold ::
  "(real \<Rightarrow> real) \<Rightarrow> config \<Rightarrow> uchar Mat \<Rightarrow> nat \<Rightarrow> nat \<Rightarrow> nat \<Rightarrow> real option" where
  "pixel_threshold rd cfg img wsize y x =
     (case pass_stats rd img wsize y x of
        (mean, None) \<Rightarrow> None
      | (mean, Some stddev) \<Rightarrow>
          Some (sauvola_threshold rd (tScale cfg) (kParam cfg) (rd (rScale cfg * (255 * 0.5)))
                  (rd (255 * tBias cfg)) mean stddev))"


definition unmasked_kept :: "uchar Mat \<Rightarrow> 'p Mat \<Rightarrow> 'p Mat \<Rightarrow> bool" where
  "unmasked_kept msk src dst \<longleftrightarrow>
     rows dst = rows src \<and> cols dst = cols src \<and>
     (\<forall>y x. px msk y x = 0 \<longrightarrow> px dst y x = px src y x)"

section \<open>Concrete inputs\<close>

text \<open>
  Images, configurations and one choice of the OpenCV collaborators, used to instantiate
  the theorems. \<open>example_cv\<close> blurs and filters by the identity and gives distance 0 at a
  zero pixel and 1 elsewhere.
\<close>

definition uniform_image :: "nat \<Rightarrow> nat \<Rightarrow> uchar \<Rightarrow> uchar Mat" where
  "uniform_image h w c = \<lparr>rows = h, cols = w, px = (\<lambda>y x. c)\<rparr>"

definition default_config :: config where
  "default_config =
     \<lparr>programMode = OUT_BINARY, windowSize = 60, kParam = 0.4, rScale = 1.0, tScale = 1.0,
      tBias = 0.0\<rparr>"


definition window4_config :: config where
  "window4_config = default_config\<lparr>windowSize := 4\<rparr>"



definition example_cv :: opencv where
  "example_cv =
     \<lparr>cvtColor_BGR2GRAY =
        (\<lambda>img. case img of
                 Gray8 m \<Rightarrow> None
               | BGR8 m \<Rightarrow> Some (mat_map (\<lambda>v. case v of (b, g, r) \<Rightarrow> g) m)),
      distanceTransform_L2 = mat_map (\<lambda>v. if v = 0 then 0 else 1),
      distanceTransform_L1 = mat_map (\<lambda>v. if v = 0 then 0 else 1),
      floodFill = (\<lambda>m x y v. m),
      filter2D_32F = (\<lambda>m kernel. m),
      filter2D_32FC3 = (\<lambda>m kernel. m),
      GaussianBlur_8U = (\<lambda>m size. m),
      GaussianBlur_8UC3 = (\<lambda>m size. m)\<rparr>"

definition example_mask :: "uchar Mat" where
  "example_mask = \<lparr>rows = 1, cols = 2, px = (\<lambda>y x. if x = 0 then 0 else 77)\<rparr>"

definition example_gray :: "uchar Mat" where
  "example_gray = \<lparr>rows = 1, cols = 2, px = (\<lambda>y x. if x = 0 then 10 else 20)\<rparr>"

definition example_isolate_bg_config :: isolate_bg_config where
  "example_isolate_bg_config =
     \<lparr>outputMode = OUT_NORMALIZED_IMAGE, inputAsGrayscale = False, adjustBrightness = False,
      integralWindowSize = 60, kParam_bg = 0, rScale_bg = 1.0,
      inpaintInitMode = ISOBG_INPAINT_INIT_NEIGHBOR_L1, inpaintIterations = 16,
      maskDenoiseDistance1 = 0, maskDenoiseDistance2 = 5.0,
      backgroundBlur = 9, backgroundAlpha = 0.9\<rparr>"

section \<open>The integral images\<close>

text \<open>
  After the loops, cell \<open>pw * y + x\<close> of a buffer holds the sum of the padded image over
  the rows up to \<open>y\<close> and the columns up to \<open>x\<close> (modulo \<open>2^64\<close>), and the four-corner
  expression is the sum over the window. Below the window size limit the window sums are
  less than \<open>2^64\<close>, so the totals are the sums themselves.
\<close>

lemma first_row_step_apply:
  "first_row_step padimg x (a1, a2, b1, b2) =
     (a1 + ucast (px padimg 0 x),
      a2 + ucast (px padimg 0 x) * ucast (px padimg 0 x),
      b1(x := a1 + ucast (px padimg 0 x)),
      b2(x := a2 + ucast (px padimg 0 x) * ucast (px padimg 0 x)))"
  by (simp add: first_row_step_def Let_def)

lemma next_row_step_apply:
  "next_row_step padimg pw y x (a1, a2, b1, b2) =
     (a1 + ucast (px padimg y x),
      a2 + ucast (px padimg y x) * ucast (px padimg y x),
      b1(pw * y + x := a1 + ucast (px padimg y x) + b1 (pw * (y - 1) + x)),
      b2(pw * y + x := a2 + ucast (px padimg y x) * ucast (px padimg y x) + b2 (pw * (y - 1) + x)))"
  by (simp add: next_row_step_def Let_def)

lemma row_sum1_Suc: "row_sum1 padimg y (Suc n) = row_sum1 padimg y n + ucast (px padimg y n)"
  by (simp add: row_sum1_def)

lemma row_sum2_Suc:
  "row_sum2 padimg y (Suc n) =
     row_sum2 padimg y n + ucast (px padimg y n) * ucast (px padimg y n)"
  by (simp add: row_sum2_def)

lemma first_row_fold:
  "fold (first_row_step padimg) [0..<n] (0, 0, b1, b2) =
     (row_sum1 padimg 0 n, row_sum2 padimg 0 n,
      (\<lambda>i. if i < n then row_sum1 padimg 0 (Suc i) else b1 i),
      (\<lambda>i. if i < n then row_sum2 padimg 0 (Suc i) else b2 i))"
proof (induction n)
  case 0
  show ?case by (simp add: row_sum1_def row_sum2_def)
next
  case (Suc n)
  have "fold (first_row_step padimg) [0..<Suc n] (0, 0, b1, b2) =
          first_row_step padimg n (fold (first_row_step padimg) [0..<n] (0, 0, b1, b2))"
    by simp
  also have "\<dots> = (row_sum1 padimg 0 (Suc n), row_sum2 padimg 0 (Suc n),
      (\<lambda>i. if i < Suc n then row_sum1 padimg 0 (Suc i) else b1 i),
      (\<lambda>i. if i < Suc n then row_sum2 padimg 0 (Suc i) else b2 i))"
    unfolding Suc.IH first_row_step_apply
    by (auto simp: fun_eq_iff row_sum1_Suc row_sum2_Suc less_Suc_eq)
  finally show ?case .
qed

lemma next_row_fold:
  assumes "1 \<le> y" "n \<le> pw"
  shows "fold (next_row_step padimg pw y) [0..<n] (0, 0, b1, b2) =
     (row_sum1 padimg y n, row_sum2 padimg y n,
      (\<lambda>i. if pw * y \<le> i \<and> i < pw * y + n
            then row_sum1 padimg y (Suc (i - pw * y)) + b1 (i - pw) else b1 i),
      (\<lambda>i. if pw * y \<le> i \<and> i < pw * y + n
            then row_sum2 padimg y (Suc (i - pw * y)) + b2 (i - pw) else b2 i))"
  using assms(2)
proof (induction n)
  case 0
  show ?case by (auto simp: row_sum1_def row_sum2_def fun_eq_iff)
next
  case (Suc n)
  obtain z where y: "y = Suc z" using assms(1) by (cases y) auto
  have n: "n < pw" using Suc.prems by simp
  have idx: "pw * (y - 1) + n = pw * y + n - pw" by (simp add: y)
  have lt: "\<not> pw * y \<le> pw * y + n - pw" using n by (simp add: y)
  have IH: "fold (next_row_step padimg pw y) [0..<n] (0, 0, b1, b2) =
     (row_sum1 padimg y n, row_sum2 padimg y n,
      (\<lambda>i. if pw * y \<le> i \<and> i < pw * y + n
            then row_sum1 padimg y (Suc (i - pw * y)) + b1 (i - pw) else b1 i),
      (\<lambda>i. if pw * y \<le> i \<and> i < pw * y + n
            then row_sum2 padimg y (Suc (i - pw * y)) + b2 (i - pw) else b2 i))"
    using Suc.IH n by simp
  have "fold (next_row_step padimg pw y) [0..<Suc n] (0, 0, b1, b2) =
          next_row_step padimg pw y n (fold (next_row_step padimg pw y) [0..<n] (0, 0, b1, b2))"
    by simp
  also have "\<dots> = (row_sum1 padimg y (Suc n), row_sum2 padimg y (Suc n),
      (\<lambda>i. if pw * y \<le> i \<and> i < pw * y + Suc n
            then row_sum1 padimg y (Suc (i - pw * y)) + b1 (i - pw) else b1 i),
      (\<lambda>i. if pw * y \<le> i \<and> i < pw * y + Suc n
            then row_sum2 padimg y (Suc (i - pw * y)) + b2 (i - pw) else b2 i))"
    unfolding IH next_row_step_apply idx
    using lt by (auto simp: fun_eq_iff row_sum1_Suc row_sum2_Suc)
  finally show ?case .
qed

lemma next_row_apply:
  assumes "1 \<le> y"
  shows "next_row padimg pw y (b1, b2) =
     ((\<lambda>i. if pw * y \<le> i \<and> i < pw * y + pw
            then row_sum1 padimg y (Suc (i - pw * y)) + b1 (i - pw) else b1 i),
      (\<lambda>i. if pw * y \<le> i \<and> i < pw * y + pw
            then row_sum2 padimg y (Suc (i - pw * y)) + b2 (i - pw) else b2 i))"
  by (simp add: next_row_def next_row_fold [OF assms order_refl])

lemma rows_done_step:
  assumes inv: "rows_done padimg pw m bs" and m: "1 \<le> m"
  shows "rows_done padimg pw (Suc m) (next_row padimg pw m bs)"
proof -
  obtain b1 b2 where bs: "bs = (b1, b2)" by (cases bs)
  obtain k where k: "m = Suc k" using m by (cases m) auto
  show ?thesis
    unfolding rows_done_def bs next_row_apply [OF m]
  proof (intro allI impI)
    fix y x assume y: "y < Suc m" and x: "x < pw"
    show "fst (\<lambda>i. if pw * m \<le> i \<and> i < pw * m + pw
            then row_sum1 padimg m (Suc (i - pw * m)) + b1 (i - pw) else b1 i,
          \<lambda>i. if pw * m \<le> i \<and> i < pw * m + pw
            then row_sum2 padimg m (Suc (i - pw * m)) + b2 (i - pw) else b2 i) (pw * y + x)
            = integral1 padimg y x \<and>
          snd (\<lambda>i. if pw * m \<le> i \<and> i < pw * m + pw
            then row_sum1 padimg m (Suc (i - pw * m)) + b1 (i - pw) else b1 i,
          \<lambda>i. if pw * m \<le> i \<and> i < pw * m + pw
            then row_sum2 padimg m (Suc (i - pw * m)) + b2 (i - pw) else b2 i) (pw * y + x)
            = integral2 padimg y x"
    proof (cases "y = m")
      case True
      have prev: "pw * m + x - pw = pw * k + x" by (simp add: k)
      have "b1 (pw * k + x) = integral1 padimg k x" "b2 (pw * k + x) = integral2 padimg k x"
        using inv x by (simp_all add: rows_done_def bs k)
      then show ?thesis using x
        by (simp add: True prev integral1_def integral2_def k)
    next
      case False
      then have ym: "y < m" using y by simp
      have "pw * y + x < pw * m"
      proof -
        have "pw * y + x < pw * y + pw" using x by simp
        also have "\<dots> = pw * Suc y" by simp
        also have "\<dots> \<le> pw * m" using ym by (intro mult_le_mono2) simp
        finally show ?thesis .
      qed
      then show ?thesis using inv ym x by (simp add: rows_done_def bs)
    qed
  qed
qed

lemma rows_done_fold:
  assumes "rows_done padimg pw 1 bs"
  shows "rows_done padimg pw (Suc n) (fold (next_row padimg pw) [1..<Suc n] bs)"
proof (induction n)
  case 0
  show ?case using assms by simp
next
  case (Suc n)
  have "fold (next_row padimg pw) [1..<Suc (Suc n)] bs =
          next_row padimg pw (Suc n) (fold (next_row padimg pw) [1..<Suc n] bs)"
    by simp
  then show ?case using rows_done_step [OF Suc.IH] by simp
qed

lemma integral_images_done:
  assumes "0 < ph"
  shows "rows_done padimg pw ph (integral_images padimg pw ph)"
proof -
  obtain n where n: "ph = Suc n" using assms by (cases ph) auto
  have "rows_done padimg pw 1
          ((\<lambda>i. if i < pw then row_sum1 padimg 0 (Suc i) else 0),
           (\<lambda>i. if i < pw then row_sum2 padimg 0 (Suc i) else 0))"
    by (simp add: rows_done_def integral1_def integral2_def)
  then show ?thesis
    unfolding integral_images_def first_row_fold n
    by (simp only: prod.case rows_done_fold)
qed

lemma sum_lessThan_split:
  fixes f :: "nat \<Rightarrow> 'a::comm_monoid_add"
  shows "(\<Sum>j<Suc (m + k). f j) = (\<Sum>j<Suc m. f j) + (\<Sum>j = Suc m..m + k. f j)"
  by (induction k) (simp_all add: add.assoc)

lemma sum_atMost_split:
  fixes f :: "nat \<Rightarrow> 'a::comm_monoid_add"
  shows "(\<Sum>i\<le>m + k. f i) = (\<Sum>i\<le>m. f i) + (\<Sum>i = Suc m..m + k. f i)"
  by (induction k) (simp_all add: add.assoc)

lemma ucast_of_nat_unat: "(ucast (v :: uchar) :: intimage_type) = of_nat (unat v)"
  by simp

lemma row_sum1_window:
  "row_sum1 padimg i (Suc (x + w)) - row_sum1 padimg i (Suc x) =
     of_nat (\<Sum>j = Suc x..x + w. unat (px padimg i j))"
proof -
  have "row_sum1 padimg i (Suc (x + w)) =
          row_sum1 padimg i (Suc x) + (\<Sum>j = Suc x..x + w. ucast (px padimg i j))"
    unfolding row_sum1_def by (rule sum_lessThan_split)
  then show ?thesis by simp
qed

lemma row_sum2_window:
  "row_sum2 padimg i (Suc (x + w)) - row_sum2 padimg i (Suc x) =
     of_nat (\<Sum>j = Suc x..x + w. unat (px padimg i j) * unat (px padimg i j))"
proof -
  have "row_sum2 padimg i (Suc (x + w)) =
          row_sum2 padimg i (Suc x)
            + (\<Sum>j = Suc x..x + w. ucast (px padimg i j) * ucast (px padimg i j))"
    unfolding row_sum2_def by (rule sum_lessThan_split)
  then show ?thesis by simp
qed

lemma integral1_window:
  "integral1 padimg (y + w) (x + w) - integral1 padimg (y + w) x
     + integral1 padimg y x - integral1 padimg y (x + w) = of_nat (window_sum1 padimg w y x)"
proof -
  have cols: "integral1 padimg m (x + w) - integral1 padimg m x =
      (\<Sum>i\<le>m. of_nat (\<Sum>j = Suc x..x + w. unat (px padimg i j)))" for m
    by (simp add: integral1_def sum_subtractf [symmetric] row_sum1_window del: of_nat_sum)
  have "integral1 padimg (y + w) (x + w) - integral1 padimg (y + w) x
     + integral1 padimg y x - integral1 padimg y (x + w) =
     (integral1 padimg (y + w) (x + w) - integral1 padimg (y + w) x)
       - (integral1 padimg y (x + w) - integral1 padimg y x)"
    by simp
  also have "\<dots> = (\<Sum>i = Suc y..y + w. of_nat (\<Sum>j = Suc x..x + w. unat (px padimg i j)))"
    unfolding cols by (simp add: sum_atMost_split del: of_nat_sum)
  finally show ?thesis by (simp add: window_sum1_def)
qed

lemma integral2_window:
  "integral2 padimg (y + w) (x + w) - integral2 padimg (y + w) x
     + integral2 padimg y x - integral2 padimg y (x + w) = of_nat (window_sum2 padimg w y x)"
proof -
  have cols: "integral2 padimg m (x + w) - integral2 padimg m x =
      (\<Sum>i\<le>m. of_nat (\<Sum>j = Suc x..x + w. unat (px padimg i j) * unat (px padimg i j)))" for m
    by (simp add: integral2_def sum_subtractf [symmetric] row_sum2_window del: of_nat_sum of_nat_mult)
  have "integral2 padimg (y + w) (x + w) - integral2 padimg (y + w) x
     + integral2 padimg y x - integral2 padimg y (x + w) =
     (integral2 padimg (y + w) (x + w) - integral2 padimg (y + w) x)
       - (integral2 padimg y (x + w) - integral2 padimg y x)"
    by simp
  also have "\<dots> = (\<Sum>i = Suc y..y + w. of_nat (\<Sum>j = Suc x..x + w. unat (px padimg i j) * unat (px padimg i j)))"
    unfolding cols by (simp add: sum_atMost_split del: of_nat_sum of_nat_mult)
  finally show ?thesis by (simp add: window_sum2_def)
qed

lemma window_total_integral:
  assumes "y + wsize < ph" "x + wsize < pw"
  shows "window_total (fst (integral_images padimg pw ph)) pw wsize y x
           = of_nat (window_sum1 padimg wsize y x)"
    and "window_total (snd (integral_images padimg pw ph)) pw wsize y x
           = of_nat (window_sum2 padimg wsize y x)"
proof -
  have ph: "0 < ph" using assms by simp
  note inv = integral_images_done [OF ph, of padimg pw, unfolded rows_done_def, rule_format]
  have y: "y < ph" and x: "x < pw" using assms by simp_all
  show "window_total (fst (integral_images padimg pw ph)) pw wsize y x
           = of_nat (window_sum1 padimg wsize y x)"
    unfolding window_total_def Let_def
    using inv [OF assms(1) assms(2)] inv [OF assms(1) x] inv [OF y x] inv [OF y assms(2)]
    by (simp only: integral1_window)
  show "window_total (snd (integral_images padimg pw ph)) pw wsize y x
           = of_nat (window_sum2 padimg wsize y x)"
    unfolding window_total_def Let_def
    using inv [OF assms(1) assms(2)] inv [OF assms(1) x] inv [OF y x] inv [OF y assms(2)]
    by (simp only: integral2_window)
qed

section \<open>Window statistics in exact arithmetic\<close>

lemma length_window_samples: "length (window_samples padimg wsize y x) = wsize * wsize"
  by (simp add: window_samples_def length_concat comp_def sum_list_triv)

lemma sum_list_concat_map: "sum_list (concat xss) = sum_list (map sum_list xss)"
  by (induction xss) simp_all

lemma sum_list_upt_sum: "sum_list (map f [a..<b]) = (\<Sum>i = a..<b. f i)"
  by (simp add: interv_sum_list_conv_sum_set_nat)

lemma sum_window_samples:
  "sum_list (window_samples padimg wsize y x) = real (window_sum1 padimg wsize y x)"
  by (simp add: window_samples_def sum_list_concat_map comp_def sum_list_upt_sum window_sum1_def
        atLeastLessThanSuc_atLeastAtMost del: upt_Suc)

lemma sum_sq_window_samples:
  "sum_list (map (\<lambda>v. v * v) (window_samples padimg wsize y x))
     = real (window_sum2 padimg wsize y x)"
  by (simp add: window_samples_def map_concat sum_list_concat_map comp_def sum_list_upt_sum window_sum2_def
        atLeastLessThanSuc_atLeastAtMost del: upt_Suc)

lemma variance_expand:
  assumes "vs \<noteq> []"
  shows "sum_list (map (\<lambda>v. (v - mean_of vs)\<^sup>2) vs) / real (length vs)
           = sum_list (map (\<lambda>v. v * v) vs) / real (length vs) - mean_of vs * mean_of vs"
proof -
  define n where "n = real (length vs)"
  define m where "m = mean_of vs"
  have n: "n > 0" using assms by (simp add: n_def)
  have s: "sum_list vs = n * m" using n by (simp add: m_def mean_of_def n_def)
  have "sum_list (map (\<lambda>v. (v - m)\<^sup>2) vs)
          = sum_list (map (\<lambda>v. v * v) vs) - 2 * m * sum_list vs + n * (m * m)"
    unfolding n_def by (induction vs) (simp_all add: power2_eq_square algebra_simps)
  then have "sum_list (map (\<lambda>v. (v - m)\<^sup>2) vs) = sum_list (map (\<lambda>v. v * v) vs) - n * (m * m)"
    by (simp add: s algebra_simps)
  then show ?thesis using n by (simp add: m_def [symmetric] n_def [symmetric] diff_divide_distrib)
qed

lemma unat_uchar_le: "unat (v :: uchar) \<le> 255"
  using unsigned_less [of v, where ?'a = nat] by simp

lemma window_sum1_le: "window_sum1 padimg wsize y x \<le> wsize * wsize * 255"
proof -
  have "window_sum1 padimg wsize y x \<le> (\<Sum>i = Suc y..y + wsize. \<Sum>j = Suc x..x + wsize. 255)"
    unfolding window_sum1_def by (intro sum_mono unat_uchar_le)
  then show ?thesis by simp
qed

lemma window_sum2_le: "window_sum2 padimg wsize y x \<le> wsize * wsize * 65025"
proof -
  have "unat v * unat v \<le> 65025" for v :: uchar
    using mult_le_mono [OF unat_uchar_le [of v] unat_uchar_le [of v]] by simp
  then have "window_sum2 padimg wsize y x \<le> (\<Sum>i = Suc y..y + wsize. \<Sum>j = Suc x..x + wsize. 65025)"
    unfolding window_sum2_def by (intro sum_mono)
  then show ?thesis by simp
qed


lemma limit_no_overflow:
  assumes "wsize \<le> windowSizeLimit"
  shows "wsize * wsize * 65025 < 2 ^ 64"
proof -
  have "wsize * wsize \<le> windowSizeLimit * windowSizeLimit"
    using assms by (intro mult_le_mono)
  then have "wsize * wsize * 65025 \<le> windowSizeLimit * windowSizeLimit * 65025" by simp
  also have "\<dots> < 2 ^ 64" by (simp add: windowSizeLimit_def)
  finally show ?thesis .
qed

lemma unat_window_sums:
  assumes "wsize \<le> windowSizeLimit"
  shows "unat (of_nat (window_sum1 padimg wsize y x) :: intimage_type) = window_sum1 padimg wsize y x"
    and "unat (of_nat (window_sum2 padimg wsize y x) :: intimage_type) = window_sum2 padimg wsize y x"
proof -
  have b2: "window_sum2 padimg wsize y x < 2 ^ 64"
    using window_sum2_le [of padimg wsize y x] limit_no_overflow [OF assms] by linarith
  have "window_sum1 padimg wsize y x \<le> wsize * wsize * 65025"
    using window_sum1_le [of padimg wsize y x] by linarith
  then have b1: "window_sum1 padimg wsize y x < 2 ^ 64"
    using limit_no_overflow [OF assms] by linarith
  show "unat (of_nat (window_sum1 padimg wsize y x) :: intimage_type) = window_sum1 padimg wsize y x"
    using b1 by (simp add: unat_of_nat)
  show "unat (of_nat (window_sum2 padimg wsize y x) :: intimage_type) = window_sum2 padimg wsize y x"
    using b2 by (simp add: unat_of_nat)
qed

lemma window_stats_exact:
  assumes w: "1 \<le> wsize" "wsize \<le> windowSizeLimit"
    and y: "y + wsize < ph" and x: "x + wsize < pw"
  shows "window_stats exact (fst (integral_images padimg pw ph)) (snd (integral_images padimg pw ph))
           pw wsize (exact (exact (1 / real wsize) / real wsize)) y x
         = (mean_of (window_samples padimg wsize y x),
            Some (stddev_of (window_samples padimg wsize y x)))"
proof -
  let ?vs = "window_samples padimg wsize y x"
  have ne: "?vs \<noteq> []"
    using w(1) length_window_samples [of padimg wsize y x] by (cases wsize) auto
  have len: "real (length ?vs) = real wsize * real wsize"
    by (simp add: length_window_samples)
  have m: "real (window_sum1 padimg wsize y x) * (1 / real wsize / real wsize) = mean_of ?vs"
    by (simp add: mean_of_def sum_window_samples len)
  have v: "real (window_sum2 padimg wsize y x) * (1 / real wsize / real wsize)
             - mean_of ?vs * mean_of ?vs
           = sum_list (map (\<lambda>v. (v - mean_of ?vs)\<^sup>2) ?vs) / real (length ?vs)"
    unfolding variance_expand [OF ne] by (simp add: sum_sq_window_samples len)
  have nonneg: "0 \<le> sum_list (map (\<lambda>v. (v - mean_of ?vs)\<^sup>2) ?vs) / real (length ?vs)"
    by (intro divide_nonneg_nonneg sum_list_nonneg) auto
  show ?thesis
    unfolding window_stats_def Let_def window_total_integral [OF y x] unat_window_sums [OF w(2)]
      exact_def m v c_sqrt_def stddev_of_def
    using nonneg by simp
qed

lemma sauvola_pass_px:
  "px (sauvola_pass rd cfg img wsize) y x =
     (case pass_stats rd img wsize y x of
        (mean, stddev) \<Rightarrow>
          sauvola_pixel rd cfg (rd (rScale cfg * (255 * 0.5))) (rd (255 * tBias cfg)) mean stddev
            (px (pass_padimg img wsize) (y + win_n wsize) (x + win_n wsize)))"
  by (simp add: sauvola_pass_def pass_stats_def pass_padimg_def Let_def split: prod.splits)

lemma sauvola_pass_dims:
  "rows (sauvola_pass rd cfg img wsize) = rows img" "cols (sauvola_pass rd cfg img wsize) = cols img"
  by (simp_all add: sauvola_pass_def Let_def split: prod.splits)


lemma pass_padimg_center:
  assumes "y < rows img" "x < cols img"
  shows "px (pass_padimg img wsize) (y + win_n wsize) (x + win_n wsize) = px img y x"
proof -
  have "min y (rows img - 1) = y" "min x (cols img - 1) = x"
    using assms by linarith+
  then show ?thesis by (simp add: pass_padimg_def copyMakeBorder_def)
qed

lemma pass_stats_exact:
  assumes "1 \<le> wsize" "wsize \<le> windowSizeLimit" "y < rows img" "x < cols img"
  shows "pass_stats exact img wsize y x =
           (mean_of (window_samples (pass_padimg img wsize) wsize y x),
            Some (stddev_of (window_samples (pass_padimg img wsize) wsize y x)))"
proof -
  have y: "y + wsize < rows img + wsize" and x: "x + wsize < cols img + wsize"
    using assms by simp_all
  show ?thesis
    using window_stats_exact [OF assms(1,2) y x, of "pass_padimg img wsize"]
    by (simp add: pass_stats_def case_prod_beta)
qed

lemma sauvola_threshold_exact:
  "sauvola_threshold exact tscale k R tbias mean stddev = spec_threshold tscale k R tbias mean stddev"
  by (simp add: sauvola_threshold_def spec_threshold_def exact_def)

lemma truncate_compare:
  assumes "0 \<le> t"
  shows "(truncate_real t < c) = (t < real_of_int c)"
  using assms by (simp add: truncate_real_def floor_less_iff)

lemma binary_pixel_exact:
  assumes "programMode cfg = OUT_BINARY" "1 \<le> wsize" "wsize \<le> windowSizeLimit"
    "y < rows img" "x < cols img"
  shows "px (sauvola_pass exact cfg img wsize) y x =
     (case double_to_int
             (spec_threshold (tScale cfg) (kParam cfg) (rScale cfg * (255 * 0.5)) (255 * tBias cfg)
                (mean_of (window_samples (pass_padimg img wsize) wsize y x))
                (stddev_of (window_samples (pass_padimg img wsize) wsize y x))) of
        None \<Rightarrow> None
      | Some threshold \<Rightarrow> Some (if uint (px img y x) > threshold then 255 else 0))"
  unfolding sauvola_pass_px pass_stats_exact [OF assms(2-5)] pass_padimg_center [OF assms(4,5)]
  by (simp add: sauvola_pixel_def assms(1) sauvola_threshold_exact exact_def split: option.splits)


section \<open>Pixel loops\<close>

lemma at_put_simps:
  "rows (at_put m y x v) = rows m"
  "cols (at_put m y x v) = cols m"
  "px (at_put m y x v) y' x' = (if y' = y \<and> x' = x then v else px m y' x')"
  by (simp_all add: at_put_def)

lemma at_put_same: "at_put m y x (px m y x) = m"
  by (simp add: at_put_def)

lemma for_yx_invariant:
  assumes "P s" and "\<And>y x s. y < h \<Longrightarrow> x < w \<Longrightarrow> P s \<Longrightarrow> P (body y x s)"
  shows "P (for_yx h w body s)"
  unfolding for_yx_def
proof (rule fold_invariant [where Q = "\<lambda>y. y < h"])
  show "P s" by fact
next
  fix y assume "y \<in> set [0..<h]"
  then show "y < h" by simp
next
  fix y s' assume y: "y < h" and s': "P s'"
  show "P (fold (body y) [0..<w] s')"
  proof (rule fold_invariant [where Q = "\<lambda>x. x < w"])
    show "P s'" by fact
  next
    fix x assume "x \<in> set [0..<w]"
    then show "x < w" by simp
  next
    fix x s'' assume "x < w" "P s''"
    then show "P (body y x s'')" using y assms(2) by blast
  qed
qed

lemma row_loop_pointwise:
  "fold (\<lambda>x m. at_put m y x (g x (px m y x))) [0..<n] m =
     m\<lparr>px := (\<lambda>y' x'. if y' = y \<and> x' < n then g x' (px m y x') else px m y' x')\<rparr>"
proof (induction n)
  case 0
  show ?case by simp
next
  case (Suc n)
  let ?F = "\<lambda>x m. at_put m y x (g x (px m y x))"
  have "fold ?F [0..<Suc n] m = ?F n (fold ?F [0..<n] m)" by simp
  also have "\<dots> = ?F n (m\<lparr>px := (\<lambda>y' x'. if y' = y \<and> x' < n then g x' (px m y x') else px m y' x')\<rparr>)"
    by (simp only: Suc)
  also have "\<dots> = m\<lparr>px := (\<lambda>y' x'. if y' = y \<and> x' < Suc n then g x' (px m y x') else px m y' x')\<rparr>"
    by (simp add: at_put_def fun_eq_iff less_Suc_eq)
  finally show ?case .
qed

lemma for_yx_pointwise:
  "for_yx h w (\<lambda>y x m. at_put m y x (g y x (px m y x))) m =
     m\<lparr>px := (\<lambda>y x. if y < h \<and> x < w then g y x (px m y x) else px m y x)\<rparr>"
  unfolding for_yx_def
proof (induction h)
  case 0
  show ?case by simp
next
  case (Suc h)
  let ?F = "\<lambda>y. fold (\<lambda>x m. at_put m y x (g y x (px m y x))) [0..<w]"
  have "fold ?F [0..<Suc h] m = ?F h (fold ?F [0..<h] m)" by simp
  also have "\<dots> = ?F h (m\<lparr>px := (\<lambda>y x. if y < h \<and> x < w then g y x (px m y x) else px m y x)\<rparr>)"
    by (simp only: Suc)
  also have "\<dots> = m\<lparr>px := (\<lambda>y x. if y < Suc h \<and> x < w then g y x (px m y x) else px m y x)\<rparr>"
    by (simp add: row_loop_pointwise fun_eq_iff less_Suc_eq)
  finally show ?case .
qed

lemma for_yx_conditional:
  "for_yx h w (\<lambda>y x m. if c y x then at_put m y x (v y x) else m) m =
     m\<lparr>px := (\<lambda>y x. if y < h \<and> x < w \<and> c y x then v y x else px m y x)\<rparr>"
proof -
  have "(\<lambda>y x m. if c y x then at_put m y x (v y x) else m) =
        (\<lambda>y x m. at_put m y x ((\<lambda>y x old. if c y x then v y x else old) y x (px m y x)))"
    by (simp add: fun_eq_iff at_put_same)
  then show ?thesis
    by (simp add: for_yx_pointwise [where g = "\<lambda>y x old. if c y x then v y x else old"] fun_eq_iff)
qed

lemma maskInvert_px:
  "px (maskInvert img) y x = (if y < rows img \<and> x < cols img then 255 - px img y x else px img y x)"
  "rows (maskInvert img) = rows img" "cols (maskInvert img) = cols img"
  by (simp_all add: maskInvert_def for_yx_pointwise [where g = "\<lambda>y x old. 255 - old"])

lemma maskInset_px:
  "px (maskInset cv img width) y x =
     (if y < rows img \<and> x < cols img
      then (if px (distanceTransform_L2 cv img) y x \<le> width then 0 else 255)
      else px img y x)"
  "rows (maskInset cv img width) = rows img" "cols (maskInset cv img width) = cols img"
  by (simp_all add: maskInset_def Let_def
        for_yx_pointwise [where g = "\<lambda>y x old. if px (distanceTransform_L2 cv img) y x \<le> width then 0 else 255"])

section \<open>The ring search finds a donor\<close>

lemma cvRound_of_int: "cvRound (real_of_int n) = n"
  by (simp add: cvRound_def round_half_even_def)

lemma saturate_uchar_roundtrip: "saturate_uchar (uchar_to_float v) = v"
proof -
  have "cvRound (real (unat v)) = int (unat v)"
    using cvRound_of_int [of "int (unat v)"] by simp
  moreover have "uint v \<le> 255"
    using unsigned_less [of v, where ?'a = int] by simp
  ultimately show ?thesis
    by (simp add: saturate_uchar_def uchar_to_float_def)
qed

lemma ring_candidates_complete:
  assumes dist: "\<bar>X - x\<bar> + \<bar>Y - y\<bar> = int d" and dpos: "0 < d"
  shows "(X, Y) \<in> set (ring_candidates x y d)"
proof -
  have mem: "(X, Y) \<in> set (ring_candidates x y d) \<longleftrightarrow>
      (\<exists>k<d. (X, Y) = (x + int k, y - int d + int k) \<or>
             (X, Y) = (x + int d - int k, y + int k) \<or>
             (X, Y) = (x - int k, y + int d - int k) \<or>
             (X, Y) = (x - int d + int k, y - int k))"
    by (auto simp: ring_candidates_def)
  consider (a) "x \<le> X" "Y < y" | (b) "x < X" "y \<le> Y" | (c) "X \<le> x" "y < Y" | (d) "X < x" "Y \<le> y"
    using dist dpos by linarith
  then show ?thesis
  proof cases
    case a
    have "nat (X - x) < d" using a dist by linarith
    moreover have "(X, Y) = (x + int (nat (X - x)), y - int d + int (nat (X - x)))"
      using a dist by simp
    ultimately show ?thesis unfolding mem by blast
  next
    case b
    have "nat (Y - y) < d" using b dist by linarith
    moreover have "(X, Y) = (x + int d - int (nat (Y - y)), y + int (nat (Y - y)))"
      using b dist by simp
    ultimately show ?thesis unfolding mem by blast
  next
    case c
    have "nat (x - X) < d" using c dist by linarith
    moreover have "(X, Y) = (x - int (nat (x - X)), y + int d - int (nat (x - X)))"
      using c dist by simp
    ultimately show ?thesis unfolding mem by blast
  next
    case d
    have "nat (y - Y) < d" using d dist by linarith
    moreover have "(X, Y) = (x - int d + int (nat (y - Y)), y - int (nat (y - Y)))"
      using d dist by simp
    ultimately show ?thesis unfolding mem by blast
  qed
qed

lemma ring_search_finds:
  assumes donor: "is_donor msk w h (X, Y)"
    and dist: "\<bar>X - int x\<bar> + \<bar>Y - int y\<bar> = int D"
    and bound: "D \<le> w + h"
  shows "d \<le> D \<Longrightarrow> 0 < d \<Longrightarrow> ring_search msk w h x y d \<noteq> None"
proof (induction "D - d" arbitrary: d)
  case 0
  then have dD: "d = D" by simp
  have "(X, Y) \<in> set (ring_candidates (int x) (int y) d)"
    using ring_candidates_complete [of X "int x" Y "int y" d] dist dD "0.prems" by simp
  then have "find (is_donor msk w h) (ring_candidates (int x) (int y) d) \<noteq> None"
    using donor by (auto simp: find_None_iff)
  then show ?case
    using bound dD by (subst ring_search.simps) (auto split: option.splits)
next
  case (Suc n)
  then have IH: "ring_search msk w h x y (Suc d) \<noteq> None"
    by simp
  have "\<not> w + h < d" using Suc.prems bound by simp
  then show ?case using IH
    by (subst ring_search.simps) (auto split: option.splits)
qed

lemma pixelExists_iff:
  "pixelExists msk w h \<longleftrightarrow> (\<exists>y<h. \<exists>x<w. px msk y x = 0)"
  unfolding pixelExists_def list_ex_iff by (simp add: Bex_def)

lemma ring_search_total:
  assumes ex: "pixelExists msk w h" and x: "x < w" and y: "y < h" and m: "px msk y x \<noteq> 0"
  shows "ring_search msk w h x y 1 \<noteq> None"
proof -
  obtain Y X where YX: "Y < h" "X < w" "px msk Y X = 0"
    using ex unfolding pixelExists_iff by blast
  have ne: "(X, Y) \<noteq> (x, y)" using YX m by auto
  define D where "D = nat (\<bar>int X - int x\<bar> + \<bar>int Y - int y\<bar>)"
  have D: "\<bar>int X - int x\<bar> + \<bar>int Y - int y\<bar> = int D" by (simp add: D_def)
  have D1: "1 \<le> D" using ne unfolding D_def by (cases "X = x") auto
  have Dwh: "D \<le> w + h" using YX x y unfolding D_def by linarith
  have donor: "is_donor msk w h (int X, int Y)"
    using YX by (simp add: is_donor_def)
  show ?thesis
    using ring_search_finds [OF donor D Dwh, of 1] D1 by simp
qed

section \<open>The inpainter writes masked pixels only\<close>

lemma unmasked_kept_refl: "unmasked_kept msk src src"
  by (simp add: unmasked_kept_def)

lemma unmasked_kept_trans:
  "unmasked_kept msk a b \<Longrightarrow> unmasked_kept msk b c \<Longrightarrow> unmasked_kept msk a c"
  by (simp add: unmasked_kept_def)

lemma masked_overwrite_kept:
  "unmasked_kept msk dst
     (for_yx h w (\<lambda>y x m. if px msk y x \<noteq> 0 then at_put m y x (v y x) else m) dst)"
  by (simp add: for_yx_conditional [where c = "\<lambda>y x. px msk y x \<noteq> 0"] unmasked_kept_def)

lemma fill_masked_kept: "unmasked_kept msk dst (fill_masked msk w h v dst)"
  unfolding fill_masked_def by (rule masked_overwrite_kept)

lemma diffuse_kept: "unmasked_kept msk dst (diffuse filt msk w h iterations dst)"
  unfolding diffuse_def
proof (rule fold_invariant [where Q = "\<lambda>i. True" and P = "unmasked_kept msk dst"])
  show "unmasked_kept msk dst dst" by (rule unmasked_kept_refl)
next
  fix i d assume d: "unmasked_kept msk dst d"
  have "unmasked_kept msk d
          (for_yx h w (\<lambda>y x m. if px msk y x \<noteq> 0 then at_put m y x (px (filt d) y x) else m) d)"
    by (rule masked_overwrite_kept)
  then show "unmasked_kept msk dst
          (let tmp = filt d
           in for_yx h w (\<lambda>y x m. if px msk y x \<noteq> 0 then at_put m y x (px tmp y x) else m) d)"
    using d unmasked_kept_trans by (simp add: Let_def) blast
qed simp

lemma neighbor_fill_kept:
  assumes ex: "pixelExists msk w h"
  shows "\<exists>d. neighbor_fill msk w h dst = Some d \<and> unmasked_kept msk dst d"
  unfolding neighbor_fill_def
proof (rule for_yx_invariant [where P = "\<lambda>s. \<exists>d. s = Some d \<and> unmasked_kept msk dst d"])
  show "\<exists>d. Some dst = Some d \<and> unmasked_kept msk dst d"
    by (simp add: unmasked_kept_refl)
next
  fix y x and s :: "'a Mat option"
  assume y: "y < h" and x: "x < w" and s: "\<exists>d. s = Some d \<and> unmasked_kept msk dst d"
  then obtain d where d: "s = Some d" "unmasked_kept msk dst d" by blast
  show "\<exists>d. (case s of
               None \<Rightarrow> None
             | Some dst \<Rightarrow>
                 if px msk y x \<noteq> 0 then
                   (case ring_search msk w h x y 1 of
                      None \<Rightarrow> None
                    | Some (X, Y) \<Rightarrow> Some (at_put dst y x (px dst (nat Y) (nat X))))
                 else Some dst) = Some d \<and> unmasked_kept msk dst d"
  proof (cases "px msk y x = 0")
    case True
    then show ?thesis using d by simp
  next
    case False
    obtain X Y where XY: "ring_search msk w h x y 1 = Some (X, Y)"
      using ring_search_total [OF ex x y False] by (cases "ring_search msk w h x y 1") auto
    have "unmasked_kept msk dst (at_put d y x (px d (nat Y) (nat X)))"
      using d(2) False by (auto simp: unmasked_kept_def at_put_simps)
    then show ?thesis using d(1) False XY by simp
  qed
qed

lemma finish_8U_kept:
  assumes "unmasked_kept msk src dst0"
  shows "unmasked_kept msk src
           (mat_map saturate_uchar (diffuse filt msk w h n (mat_map uchar_to_float dst0)))"
proof -
  have "unmasked_kept msk (mat_map uchar_to_float dst0)
          (diffuse filt msk w h n (mat_map uchar_to_float dst0))"
    by (rule diffuse_kept)
  then show ?thesis using assms
    by (simp add: unmasked_kept_def mat_map_def saturate_uchar_roundtrip)
qed

lemma vec3_roundtrip: "vec3_map saturate_uchar (vec3_map uchar_to_float v) = v"
  by (cases v) (simp add: vec3_map_def saturate_uchar_roundtrip)

lemma finish_8UC3_kept:
  assumes "unmasked_kept msk src dst0"
  shows "unmasked_kept msk src
           (mat_map (vec3_map saturate_uchar)
              (diffuse filt msk w h n (mat_map (vec3_map uchar_to_float) dst0)))"
proof -
  have "unmasked_kept msk (mat_map (vec3_map uchar_to_float) dst0)
          (diffuse filt msk w h n (mat_map (vec3_map uchar_to_float) dst0))"
    by (rule diffuse_kept)
  then show ?thesis using assms
    by (simp add: unmasked_kept_def mat_map_def vec3_roundtrip)
qed

lemma fastInpaint_8U_kept:
  "\<exists>ok dst. fastInpaint_8U cv src msk initMode iterations = Some (ok, dst) \<and>
            unmasked_kept msk src dst"
proof (cases initMode)
  case ISOBG_INPAINT_INIT_MEAN
  then show ?thesis
    by (auto simp: fastInpaint_8U_def Let_def unmasked_kept_refl
          intro!: finish_8U_kept fill_masked_kept split: prod.splits)
next
  case ISOBG_INPAINT_INIT_NEIGHBOR_L1
  show ?thesis
  proof (cases "pixelExists msk (cols src) (rows src)")
    case False
    then show ?thesis
      by (auto simp: fastInpaint_8U_def Let_def ISOBG_INPAINT_INIT_NEIGHBOR_L1 unmasked_kept_refl)
  next
    case True
    obtain d where d: "neighbor_fill msk (cols src) (rows src) src = Some d" "unmasked_kept msk src d"
      using neighbor_fill_kept [OF True] by blast
    show ?thesis using True d
      by (auto simp: fastInpaint_8U_def Let_def ISOBG_INPAINT_INIT_NEIGHBOR_L1 finish_8U_kept)
  qed
qed

lemma fastInpaint_8UC3_kept:
  "\<exists>ok dst. fastInpaint_8UC3 cv src msk initMode iterations = Some (ok, dst) \<and>
            unmasked_kept msk src dst"
proof (cases initMode)
  case ISOBG_INPAINT_INIT_MEAN
  then show ?thesis
    by (auto simp: fastInpaint_8UC3_def Let_def unmasked_kept_refl
          intro!: finish_8UC3_kept fill_masked_kept split: prod.splits)
next
  case ISOBG_INPAINT_INIT_NEIGHBOR_L1
  show ?thesis
  proof (cases "pixelExists msk (cols src) (rows src)")
    case False
    then show ?thesis
      by (auto simp: fastInpaint_8UC3_def Let_def ISOBG_INPAINT_INIT_NEIGHBOR_L1 unmasked_kept_refl)
  next
    case True
    obtain d where d: "neighbor_fill msk (cols src) (rows src) src = Some d" "unmasked_kept msk src d"
      using neighbor_fill_kept [OF True] by blast
    show ?thesis using True d
      by (auto simp: fastInpaint_8UC3_def Let_def ISOBG_INPAINT_INIT_NEIGHBOR_L1 finish_8UC3_kept)
  qed
qed

lemma count_unmasked_none_8U:
  assumes "\<forall>y<h. \<forall>x<w. px msk y x \<noteq> 0"
  shows "for_yx h w
           (\<lambda>y x (totalR, pixels).
              if px msk y x = 0 then (totalR + ucast (px src y x), pixels + 1)
              else (totalR, pixels))
           (0 :: uint64, 0 :: uint64) = (0, 0)"
  by (rule for_yx_invariant [where P = "\<lambda>s. s = (0, 0)"]) (use assms in auto)

lemma count_unmasked_none_8UC3:
  assumes "\<forall>y<h. \<forall>x<w. px msk y x \<noteq> 0"
  shows "for_yx h w
           (\<lambda>y x (totalR, totalG, totalB, pixels).
              if px msk y x = 0
              then (case px src y x of
                      (v0, v1, v2) \<Rightarrow>
                        (totalR + ucast v2, totalG + ucast v1, totalB + ucast v0, pixels + 1))
              else (totalR, totalG, totalB, pixels))
           (0 :: uint64, 0 :: uint64, 0 :: uint64, 0 :: uint64) = (0, 0, 0, 0)"
  by (rule for_yx_invariant [where P = "\<lambda>s. s = (0, 0, 0, 0)"]) (use assms in auto)

lemma fastInpaint_8U_fully_masked:
  assumes "\<forall>y<rows src. \<forall>x<cols src. px msk y x \<noteq> 0"
  shows "fastInpaint_8U cv src msk initMode iterations = Some (False, src)"
proof (cases initMode)
  case ISOBG_INPAINT_INIT_MEAN
  then show ?thesis
    by (simp add: fastInpaint_8U_def Let_def count_unmasked_none_8U [OF assms])
next
  case ISOBG_INPAINT_INIT_NEIGHBOR_L1
  have "\<not> pixelExists msk (cols src) (rows src)"
    using assms by (auto simp: pixelExists_iff)
  then show ?thesis
    by (simp add: fastInpaint_8U_def Let_def ISOBG_INPAINT_INIT_NEIGHBOR_L1)
qed

lemma fastInpaint_8UC3_fully_masked:
  assumes "\<forall>y<rows src. \<forall>x<cols src. px msk y x \<noteq> 0"
  shows "fastInpaint_8UC3 cv src msk initMode iterations = Some (False, src)"
proof (cases initMode)
  case ISOBG_INPAINT_INIT_MEAN
  then show ?thesis
    by (simp add: fastInpaint_8UC3_def Let_def count_unmasked_none_8UC3 [OF assms])
next
  case ISOBG_INPAINT_INIT_NEIGHBOR_L1
  have "\<not> pixelExists msk (cols src) (rows src)"
    using assms by (auto simp: pixelExists_iff)
  then show ?thesis
    by (simp add: fastInpaint_8UC3_def Let_def ISOBG_INPAINT_INIT_NEIGHBOR_L1)
qed

lemma fastInpaint_fully_masked:
  assumes "\<forall>y<image_rows src. \<forall>x<image_cols src. px msk y x \<noteq> 0"
  shows "fastInpaint cv src msk initMode iterations = Some (False, src)"
proof (cases src)
  case (Gray8 s)
  then show ?thesis
    using assms fastInpaint_8U_fully_masked [of s msk cv initMode iterations]
    by (simp add: fastInpaint_def image_rows_def image_cols_def)
next
  case (BGR8 s)
  then show ?thesis
    using assms fastInpaint_8UC3_fully_masked [of s msk cv initMode iterations]
    by (simp add: fastInpaint_def image_rows_def image_cols_def)
qed

lemma fastInpaint_keeps_unmasked:
  "\<exists>ok dst. fastInpaint cv src msk initMode iterations = Some (ok, dst) \<and>
            image_rows dst = image_rows src \<and> image_cols dst = image_cols src \<and>
            (\<forall>y x. px msk y x = 0 \<longrightarrow> image_at dst y x = image_at src y x)"
proof (cases src)
  case (Gray8 s)
  obtain ok d where "fastInpaint_8U cv s msk initMode iterations = Some (ok, d)" "unmasked_kept msk s d"
    using fastInpaint_8U_kept by blast
  then show ?thesis
    by (simp add: Gray8 fastInpaint_def image_rows_def image_cols_def image_at_def unmasked_kept_def)
next
  case (BGR8 s)
  obtain ok d where "fastInpaint_8UC3 cv s msk initMode iterations = Some (ok, d)" "unmasked_kept msk s d"
    using fastInpaint_8UC3_kept by blast
  then show ?thesis
    by (simp add: BGR8 fastInpaint_def image_rows_def image_cols_def image_at_def unmasked_kept_def)
qed

section \<open>Uniform images and bounds of the statistics\<close>

lemma binarize_dims:
  assumes "binarizeUsingSauvola rd src wsize k r = Some dst"
  shows "rows dst = rows src" "cols dst = cols src"
  using assms
  by (auto simp: binarizeUsingSauvola_def Let_def split: if_splits prod.splits)

lemma binarize_px:
  assumes "binarizeUsingSauvola rd src wsize k r = Some dst"
  shows "px dst y x =
     (case pass_stats rd src wsize y x of
        (mean, None) \<Rightarrow> None
      | (mean, Some stddev) \<Rightarrow>
          (case double_to_int
                  (rd (mean * rd (1 + rd (k * rd (rd (stddev / rd (r * (255 * 0.5))) - 1))))) of
             None \<Rightarrow> None
           | Some threshold \<Rightarrow>
               Some (if uint (px (pass_padimg src wsize) (y + win_n wsize) (x + win_n wsize)) > threshold
                     then 255 else 0)))"
  using assms
  by (auto simp: binarizeUsingSauvola_def Let_def pass_stats_def pass_padimg_def
        split: if_splits prod.splits option.splits)

lemma binarize_Some_iff:
  "(\<exists>dst. binarizeUsingSauvola rd src wsize k r = Some dst) \<longleftrightarrow>
     \<not> (cols src = 0 \<or> rows src = 0 \<or> pad_size_too_big (cols src) (rows src) wsize)"
  by (auto simp: binarizeUsingSauvola_def Let_def split: prod.splits)

lemma binarize_px_exact:
  assumes b: "binarizeUsingSauvola exact src wsize k r = Some dst"
    and w: "1 \<le> wsize" "wsize \<le> windowSizeLimit" and yx: "y < rows src" "x < cols src"
  shows "px dst y x =
     (case double_to_int
             (spec_threshold 1 k (r * (255 * 0.5)) 0
                (mean_of (window_samples (pass_padimg src wsize) wsize y x))
                (stddev_of (window_samples (pass_padimg src wsize) wsize y x))) of
        None \<Rightarrow> None
      | Some threshold \<Rightarrow> Some (if uint (px src y x) > threshold then 255 else 0))"
  unfolding binarize_px [OF b] pass_stats_exact [OF w yx] pass_padimg_center [OF yx]
  by (simp add: exact_def spec_threshold_def split: option.splits)

lemma pixel_threshold_exact:
  assumes "1 \<le> wsize" "wsize \<le> windowSizeLimit" "y < rows img" "x < cols img"
  shows "pixel_threshold exact cfg img wsize y x =
     Some (spec_threshold (tScale cfg) (kParam cfg) (rScale cfg * (255 * 0.5)) (255 * tBias cfg)
             (mean_of (window_samples (pass_padimg img wsize) wsize y x))
             (stddev_of (window_samples (pass_padimg img wsize) wsize y x)))"
  unfolding pixel_threshold_def pass_stats_exact [OF assms]
  by (simp add: sauvola_threshold_exact exact_def)

lemma stddev_of_sums:
  assumes "vs \<noteq> []"
  shows "stddev_of vs =
           sqrt (sum_list (map (\<lambda>v. v * v) vs) / real (length vs) - mean_of vs * mean_of vs)"
  unfolding stddev_of_def variance_expand [OF assms] ..

lemma window_samples_nonempty: "1 \<le> wsize \<Longrightarrow> window_samples padimg wsize y x \<noteq> []"
  using length_window_samples [of padimg wsize y x] by (cases wsize) auto

lemma mean_of_window:
  "mean_of (window_samples padimg wsize y x) =
     real (window_sum1 padimg wsize y x) / (real wsize * real wsize)"
  by (simp add: mean_of_def sum_window_samples length_window_samples)

lemma stddev_of_window:
  assumes "1 \<le> wsize"
  shows "stddev_of (window_samples padimg wsize y x) =
     sqrt (real (window_sum2 padimg wsize y x) / (real wsize * real wsize)
             - mean_of (window_samples padimg wsize y x) * mean_of (window_samples padimg wsize y x))"
  unfolding stddev_of_sums [OF window_samples_nonempty [OF assms]]
  by (simp add: sum_sq_window_samples length_window_samples)

lemma uniform_window_sums:
  assumes "\<And>i j. px padimg i j = c"
  shows "window_sum1 padimg wsize y x = wsize * wsize * unat c"
    and "window_sum2 padimg wsize y x = wsize * wsize * (unat c * unat c)"
  by (simp_all add: window_sum1_def window_sum2_def assms)

lemma uniform_image_simps:
  "rows (uniform_image h w c) = h" "cols (uniform_image h w c) = w"
  "px (uniform_image h w c) y x = c"
  by (simp_all add: uniform_image_def)

lemma pass_padimg_uniform: "px (pass_padimg (uniform_image h w c) wsize) i j = c"
  by (simp add: pass_padimg_def copyMakeBorder_def uniform_image_def)

lemma uniform_stats:
  assumes "1 \<le> wsize"
  shows "mean_of (window_samples (pass_padimg (uniform_image h w c) wsize) wsize y x) = real (unat c)"
    and "stddev_of (window_samples (pass_padimg (uniform_image h w c) wsize) wsize y x) = 0"
proof -
  let ?p = "pass_padimg (uniform_image h w c) wsize"
  have w: "real wsize * real wsize \<noteq> 0" using assms by simp
  note sums = uniform_window_sums [of ?p c, OF pass_padimg_uniform]
  show m: "mean_of (window_samples ?p wsize y x) = real (unat c)"
    unfolding mean_of_window sums using w by simp
  show "stddev_of (window_samples ?p wsize y x) = 0"
    unfolding stddev_of_window [OF assms] m sums using w by simp
qed



lemma stddev_of_nonneg: "0 \<le> stddev_of vs"
  unfolding stddev_of_def
  by (intro real_sqrt_ge_zero divide_nonneg_nonneg sum_list_nonneg) auto

section \<open>The claims\<close>

subsection \<open>Mask morphology\<close>

lemma inset_loop_px:
  assumes "y < h" "x < w"
  shows "px (for_yx h w (\<lambda>y x m. at_put m y x (if px tmp y x \<le> d then 0 else 255)) img) y x
           = (if px tmp y x \<le> d then 0 else 255)"
  using assms
  by (simp add: for_yx_pointwise [where g = "\<lambda>y x old. if px tmp y x \<le> d then 0 else 255"])

lemma run_inset_L2_px:
  assumes "op cmd = MASK_CMD_INSET_L2" "y < h" "x < w"
  shows "px (run_command cv w h cmd img) y x =
           (if px (distanceTransform_L2 cv img) y x \<le> dist_arg cmd then 0 else 255)"
  by (simp add: run_command_def Let_def assms(1) inset_loop_px [OF assms(2,3)])

lemma run_inset_L1_px:
  assumes "op cmd = MASK_CMD_INSET_L1" "y < h" "x < w"
  shows "px (run_command cv w h cmd img) y x =
           (if px (distanceTransform_L1 cv img) y x \<le> dist_arg cmd then 0 else 255)"
  by (simp add: run_command_def Let_def assms(1) inset_loop_px [OF assms(2,3)])

text \<open>
  Claim C10. After an inset every pixel of the mask is exactly 0 or exactly 255, whatever
  8-bit values the mask held before, whatever the distance transform returned and whatever
  the distance: this holds for \<open>maskInset\<close> of isolate-bg and for both inset commands
  (L2 and L1 norm) of mask-op.
\<close>

theorem inset_rebinarizes:
  assumes "y < rows img" "x < cols img"
  shows "(px (maskInset cv img width) y x = 0 \<or> px (maskInset cv img width) y x = 255) \<and>
         (px (run_command cv (cols img) (rows img)
                \<lparr>op = MASK_CMD_INSET_L2, dist_arg = width\<rparr> img) y x = 0 \<or>
          px (run_command cv (cols img) (rows img)
                \<lparr>op = MASK_CMD_INSET_L2, dist_arg = width\<rparr> img) y x = 255) \<and>
         (px (run_command cv (cols img) (rows img)
                \<lparr>op = MASK_CMD_INSET_L1, dist_arg = width\<rparr> img) y x = 0 \<or>
          px (run_command cv (cols img) (rows img)
                \<lparr>op = MASK_CMD_INSET_L1, dist_arg = width\<rparr> img) y x = 255)"
proof -
  have "px (maskInset cv img width) y x = 0 \<or> px (maskInset cv img width) y x = 255"
    using assms by (simp add: maskInset_px)
  moreover have "px (run_command cv (cols img) (rows img) cmd img) y x = 0 \<or>
                 px (run_command cv (cols img) (rows img) cmd img) y x = 255"
    if "op cmd = MASK_CMD_INSET_L2" for cmd
    by (simp add: run_inset_L2_px [OF that assms])
  moreover have "px (run_command cv (cols img) (rows img) cmd img) y x = 0 \<or>
                 px (run_command cv (cols img) (rows img) cmd img) y x = 255"
    if "op cmd = MASK_CMD_INSET_L1" for cmd
    by (simp add: run_inset_L1_px [OF that assms])
  ultimately show ?thesis by simp
qed

theorem inset_rebinarizes_witness:
  "(0 :: nat) < rows example_mask \<and> (1 :: nat) < cols example_mask \<and>
   px example_mask 0 1 = 77 \<and>
   px (maskInset example_cv example_mask 0.5) 0 1 = 255 \<and>
   px (run_command example_cv (cols example_mask) (rows example_mask)
         \<lparr>op = MASK_CMD_INSET_L2, dist_arg = 0.5\<rparr> example_mask) 0 1 = 255 \<and>
   px (run_command example_cv (cols example_mask) (rows example_mask)
         \<lparr>op = MASK_CMD_INSET_L1, dist_arg = 2\<rparr> example_mask) 0 1 = 0"
proof -
  have r: "(0 :: nat) < rows example_mask" and c: "(1 :: nat) < cols example_mask"
    by (simp_all add: example_mask_def)
  have dt: "px (distanceTransform_L2 example_cv example_mask) 0 1 = 1"
           "px (distanceTransform_L1 example_cv example_mask) 0 1 = 1"
    by (simp_all add: example_cv_def example_mask_def mat_map_def)
  have a: "px (maskInset example_cv example_mask 0.5) 0 1 = 255"
    using r c dt by (simp add: maskInset_px)
  have b: "px (run_command example_cv (cols example_mask) (rows example_mask)
         \<lparr>op = MASK_CMD_INSET_L2, dist_arg = 0.5\<rparr> example_mask) 0 1 = 255"
    using run_inset_L2_px [OF _ r c, of "\<lparr>op = MASK_CMD_INSET_L2, dist_arg = 0.5\<rparr>" example_cv example_mask] dt
    by simp
  have d: "px (run_command example_cv (cols example_mask) (rows example_mask)
         \<lparr>op = MASK_CMD_INSET_L1, dist_arg = 2\<rparr> example_mask) 0 1 = 0"
    using run_inset_L1_px [OF _ r c, of "\<lparr>op = MASK_CMD_INSET_L1, dist_arg = 2\<rparr>" example_cv example_mask] dt
    by simp
  show ?thesis
    using inset_rebinarizes [OF r c, of example_cv "0.5"] a b d
    by (simp add: example_mask_def)
qed

text \<open>
  Claim C7. The dispatch of the four distance options of mask-op, as \<open>argparse\<close> appends
  it to the command list before the image is read: an outset with a non-negative distance
  is the three commands negate, inset, negate (with the norm of the option); a negative
  distance turns an inset into the outset of the absolute value and an outset into the
  inset of the absolute value.
\<close>

theorem outset_dispatch:
  "width_commands CHR ''o'' d =
     (if 0 \<le> d
      then [\<lparr>op = MASK_CMD_NEG, dist_arg = 0\<rparr>, \<lparr>op = MASK_CMD_INSET_L2, dist_arg = d\<rparr>,
            \<lparr>op = MASK_CMD_NEG, dist_arg = 0\<rparr>]
      else width_commands CHR ''i'' (- d)) \<and>
   width_commands CHR ''O'' d =
     (if 0 \<le> d
      then [\<lparr>op = MASK_CMD_NEG, dist_arg = 0\<rparr>, \<lparr>op = MASK_CMD_INSET_L1, dist_arg = d\<rparr>,
            \<lparr>op = MASK_CMD_NEG, dist_arg = 0\<rparr>]
      else width_commands CHR ''I'' (- d)) \<and>
   width_commands CHR ''i'' d =
     (if 0 \<le> d then [\<lparr>op = MASK_CMD_INSET_L2, dist_arg = d\<rparr>]
      else width_commands CHR ''o'' (- d)) \<and>
   width_commands CHR ''I'' d =
     (if 0 \<le> d then [\<lparr>op = MASK_CMD_INSET_L1, dist_arg = d\<rparr>]
      else width_commands CHR ''O'' (- d)) \<and>
   mask_op_argparse (opts @ [OptArg CHR ''o'' d]) commands =
     (case mask_op_argparse opts commands of
        Inl code \<Rightarrow> Inl code
      | Inr commands' \<Rightarrow> Inr (commands' @ width_commands CHR ''o'' d)) \<and>
   mask_op_main cv [OptArg CHR ''o'' \<bar>d\<bar>] (Some img) =
     Saved (run_command cv (cols img) (rows img) \<lparr>op = MASK_CMD_NEG, dist_arg = 0\<rparr>
             (run_command cv (cols img) (rows img) \<lparr>op = MASK_CMD_INSET_L2, dist_arg = \<bar>d\<bar>\<rparr>
               (run_command cv (cols img) (rows img) \<lparr>op = MASK_CMD_NEG, dist_arg = 0\<rparr> img)))"
proof -
  have app: "mask_op_argparse (opts @ [OptArg CHR ''o'' d]) commands =
     (case mask_op_argparse opts commands of
        Inl code \<Rightarrow> Inl code
      | Inr commands' \<Rightarrow> Inr (commands' @ width_commands CHR ''o'' d))"
    by (induction opts commands rule: mask_op_argparse.induct) simp_all
  have main: "mask_op_main cv [OptArg CHR ''o'' \<bar>d\<bar>] (Some img) =
     Saved (run_command cv (cols img) (rows img) \<lparr>op = MASK_CMD_NEG, dist_arg = 0\<rparr>
             (run_command cv (cols img) (rows img) \<lparr>op = MASK_CMD_INSET_L2, dist_arg = \<bar>d\<bar>\<rparr>
               (run_command cv (cols img) (rows img) \<lparr>op = MASK_CMD_NEG, dist_arg = 0\<rparr> img)))"
    by (simp add: mask_op_main_def width_commands_def)
  show ?thesis
    unfolding app main by (simp add: width_commands_def)
qed

subsection \<open>Inpainting\<close>

text \<open>
  Claim C9. For every image (one or three channels), mask, initialization mode, iteration
  count and convolution, \<open>fastInpaint\<close> returns, and every pixel at which the mask is
  zero has in the output exactly the value it has in the source.
\<close>

theorem inpaint_keeps_unmasked:
  "\<exists>ok dst. fastInpaint cv src msk initMode iterations = Some (ok, dst) \<and>
            image_rows dst = image_rows src \<and> image_cols dst = image_cols src \<and>
            (\<forall>y x. px msk y x = 0 \<longrightarrow> image_at dst y x = image_at src y x)"
  by (rule fastInpaint_keeps_unmasked)

theorem inpaint_keeps_unmasked_witness:
  "px example_mask 0 0 = 0 \<and>
   (\<exists>ok dst. fastInpaint example_cv (Gray8 example_gray) example_mask ISOBG_INPAINT_INIT_MEAN 3
                = Some (ok, dst) \<and>
              image_at dst 0 0 = [10])"
proof -
  have m: "px example_mask 0 0 = 0" by (simp add: example_mask_def)
  have s: "image_at (Gray8 example_gray) 0 0 = [10]"
    by (simp add: image_at_def example_gray_def)
  show ?thesis
    using inpaint_keeps_unmasked
            [of example_cv "Gray8 example_gray" example_mask ISOBG_INPAINT_INIT_MEAN 3] m s
    by auto
qed

subsection \<open>Padding and window coverage\<close>








subsection \<open>Sauvola output policies\<close>



lemma uint_uchar_real: "real_of_int (uint (v :: uchar)) = real (unat v)"
  by simp



lemma uniform_threshold:
  assumes "1 \<le> wsize" "wsize \<le> windowSizeLimit" "y < h" "x < w"
  shows "pixel_threshold exact cfg (uniform_image h w c) wsize y x =
     Some (spec_threshold (tScale cfg) (kParam cfg) (rScale cfg * (255 * 0.5)) (255 * tBias cfg)
             (real (unat c)) 0)"
proof -
  have yx: "y < rows (uniform_image h w c)" "x < cols (uniform_image h w c)"
    using assms by (simp_all add: uniform_image_def)
  show ?thesis
    unfolding pixel_threshold_exact [OF assms(1,2) yx] uniform_stats [OF assms(1)] ..
qed

lemma uniform_binary:
  assumes "programMode cfg = OUT_BINARY" "1 \<le> wsize" "wsize \<le> windowSizeLimit" "y < h" "x < w"
  shows "px (sauvola_pass exact cfg (uniform_image h w c) wsize) y x =
     (case double_to_int
             (spec_threshold (tScale cfg) (kParam cfg) (rScale cfg * (255 * 0.5)) (255 * tBias cfg)
                (real (unat c)) 0) of
        None \<Rightarrow> None
      | Some threshold \<Rightarrow> Some (if threshold < uint c then 255 else 0))"
proof -
  have yx: "y < rows (uniform_image h w c)" "x < cols (uniform_image h w c)"
    using assms by (simp_all add: uniform_image_def)
  show ?thesis
    unfolding binary_pixel_exact [OF assms(1-3) yx] uniform_stats [OF assms(2)]
    by (simp add: uniform_image_def split: option.splits)
qed




lemma double_to_int_384_5: "double_to_int (384 / 5) = Some 76"
proof -
  have "\<lfloor>384 / 5 :: real\<rfloor> = 76" by (rule floor_unique) simp_all
  then show ?thesis by (simp add: double_to_int_def truncate_real_def)
qed

lemma window4_facts:
  "argparse_accepts window4_config" "programMode window4_config = OUT_BINARY"
  "windowSize window4_config = 4" "kParam window4_config = 0.4" "rScale window4_config = 1"
  "tScale window4_config = 1" "tBias window4_config = 0"
  by (simp_all add: argparse_accepts_def window4_config_def default_config_def windowSizeLimit_def)

lemma window4_pixel:
  assumes "y < 4" "x < 4"
  shows "pixel_threshold exact window4_config (uniform_image 4 4 128) 4 y x = Some (384 / 5)"
    and "px (sauvola_pass exact window4_config (uniform_image 4 4 128) 4) y x = Some 255"
proof -
  have w: "(1 :: nat) \<le> 4" "(4 :: nat) \<le> windowSizeLimit" by (simp_all add: windowSizeLimit_def)
  have t: "spec_threshold (tScale window4_config) (kParam window4_config)
          (rScale window4_config * (255 * 0.5)) (255 * tBias window4_config)
          (real (unat (128 :: uchar))) 0 = 384 / 5"
    by (simp add: spec_threshold_def window4_config_def default_config_def)
  show "pixel_threshold exact window4_config (uniform_image 4 4 128) 4 y x = Some (384 / 5)"
    unfolding uniform_threshold [OF w assms, of window4_config 128] t ..
  show "px (sauvola_pass exact window4_config (uniform_image 4 4 128) 4) y x = Some 255"
    unfolding uniform_binary [OF window4_facts(2) w assms, of 128] t double_to_int_384_5
    by simp
qed

lemma window4_binarize:
  assumes "y < 4" "x < 4"
  shows "\<exists>dst. binarizeUsingSauvola exact (uniform_image 4 4 128) 4 0.4 1 = Some dst \<and>
               px dst y x = Some 255"
proof -
  have nb: "\<not> (cols (uniform_image 4 4 128) = 0 \<or> rows (uniform_image 4 4 128) = 0 \<or>
              pad_size_too_big (cols (uniform_image 4 4 128)) (rows (uniform_image 4 4 128)) 4)"
    by (simp add: uniform_image_def pad_size_too_big_def INT_MAX_def)
  then obtain dst where dst: "binarizeUsingSauvola exact (uniform_image 4 4 128) 4 0.4 1 = Some dst"
    using binarize_Some_iff [of exact "uniform_image 4 4 128" 4 "0.4" 1] by blast
  have w: "(1 :: nat) \<le> 4" "(4 :: nat) \<le> windowSizeLimit" by (simp_all add: windowSizeLimit_def)
  have yx: "y < rows (uniform_image 4 4 128)" "x < cols (uniform_image 4 4 128)"
    using assms by (simp_all add: uniform_image_def)
  have t: "spec_threshold 1 0.4 (1 * (255 * 0.5)) 0 (real (unat (128 :: uchar))) 0 = 384 / 5"
    by (simp add: spec_threshold_def)
  have "px dst y x = Some 255"
    unfolding binarize_px_exact [OF dst w yx] uniform_stats [OF w(1)] t double_to_int_384_5
    by (simp add: uniform_image_def)
  then show ?thesis using dst by blast
qed

text \<open>
  Claim C2 (as amended). For the 4 by 4 image of value 128 with window 4, \<open>K = 0.4\<close>,
  R-scale 1, threshold scale 1 and bias 0 (doubles read as exact reals), the threshold
  is \<open>128 * (1 - 0.4) = 76.8\<close> at every pixel, stored as the integer 76, and the Binary
  output is 255 at every pixel, in binarize-sauvola and in \<open>binarizeUsingSauvola\<close>.
\<close>

theorem uniform_128_scenario:
  assumes "y < 4" "x < 4"
  shows "pixel_threshold exact window4_config (uniform_image 4 4 128) 4 y x = Some (384 / 5) \<and>
         double_to_int (384 / 5) = Some 76 \<and>
         px (sauvola_pass exact window4_config (uniform_image 4 4 128) 4) y x = Some 255 \<and>
         (\<exists>dst. binarizeUsingSauvola exact (uniform_image 4 4 128) 4 0.4 1 = Some dst \<and>
                px dst y x = Some 255)"
  using window4_pixel [OF assms] window4_binarize [OF assms] double_to_int_384_5 by simp

theorem uniform_128_scenario_witness:
  "(3 :: nat) < 4 \<and> (2 :: nat) < 4 \<and>
   pixel_threshold exact window4_config (uniform_image 4 4 128) 4 3 2 = Some (384 / 5) \<and>
   px (sauvola_pass exact window4_config (uniform_image 4 4 128) 4) 3 2 = Some 255"
proof -
  have h: "(3 :: nat) < 4" "(2 :: nat) < 4" by simp_all
  show ?thesis using uniform_128_scenario [OF h] by simp
qed

theorem uniform_128_scenario_counterexample:
  "windowSize window4_config = 4 \<and> kParam window4_config = 0.4 \<and> rScale window4_config = 1 \<and>
   tScale window4_config = 1 \<and> tBias window4_config = 0 \<and>
   pixel_threshold exact window4_config (uniform_image 4 4 128) 4 0 0 = Some (384 / 5) \<and>
   pixel_threshold exact window4_config (uniform_image 4 4 128) 4 0 0 \<noteq> Some 128 \<and>
   px (sauvola_pass exact window4_config (uniform_image 4 4 128) 4) 0 0 = Some 255 \<and>
   px (sauvola_pass exact window4_config (uniform_image 4 4 128) 4) 0 0 \<noteq> Some 0"
proof -
  have h: "(0 :: nat) < 4" by simp
  show ?thesis
    using window4_pixel [OF h h] window4_facts by simp
qed










lemma threshold_pixel:
  assumes "programMode cfg = OUT_BINARY \<or> programMode cfg = OUT_THRESHOLD"
    and "y < rows img" "x < cols img"
  shows "px (sauvola_pass rd cfg img wsize) y x =
     (case pixel_threshold rd cfg img wsize y x of
        None \<Rightarrow> None
      | Some t \<Rightarrow>
          (case double_to_int t of
             None \<Rightarrow> None
           | Some threshold \<Rightarrow>
               if programMode cfg = OUT_THRESHOLD then Some (word_of_int threshold)
               else Some (if threshold < uint (px img y x) then 255 else 0)))"
  unfolding sauvola_pass_px pixel_threshold_def pass_padimg_center [OF assms(2,3)]
  using assms(1)
  by (auto simp: sauvola_pixel_def Let_def split: prod.splits option.splits)



subsection \<open>The background-isolation run on a fully masked image\<close>

lemma isolate_bg_output_not_failure: "isolate_bg_output rd cv cfg img bg \<noteq> Exit_failure"
  by (simp add: isolate_bg_output_def Let_def split: option.splits IsolateBgMode.splits)

lemma isolate_bg_main_gray:
  assumes "\<not> inputAsGrayscale cfg"
    and "binarizeUsingSauvola rd g (integralWindowSize cfg) (kParam_bg cfg) (rScale_bg cfg) = Some b"
    and "mat_defined b = Some tmp"
  shows "isolate_bg_main rd cv cfg (Some (Gray8 g)) =
     (case fastInpaint cv (Gray8 g) (refine_mask cv cfg tmp) (inpaintInitMode cfg)
             (inpaintIterations cfg) of
        None \<Rightarrow> No_return
      | Some (ok, bg) \<Rightarrow> isolate_bg_output rd cv cfg (Gray8 g) bg)"
  using assms by (simp add: isolate_bg_main_def)

text \<open>
  Claim C8. When the mask is nonzero at every pixel of the image, \<open>fastInpaint\<close> returns
  \<open>false\<close> in both initialization modes and leaves the copy of the source in \<open>dst\<close>.
  \<open>main\<close> of isolate-bg does not look at the returned flag: the run goes on to the blur
  and output stage with the unchanged source as background estimate, and that stage never
  ends as the failure exit.
\<close>

theorem fully_masked_run:
  assumes "\<not> inputAsGrayscale cfg"
    and "binarizeUsingSauvola rd g (integralWindowSize cfg) (kParam_bg cfg) (rScale_bg cfg) = Some b"
    and "mat_defined b = Some tmp"
    and "\<forall>y<rows g. \<forall>x<cols g. px (refine_mask cv cfg tmp) y x \<noteq> 0"
  shows "fastInpaint cv (Gray8 g) (refine_mask cv cfg tmp) ISOBG_INPAINT_INIT_MEAN n
           = Some (False, Gray8 g) \<and>
         fastInpaint cv (Gray8 g) (refine_mask cv cfg tmp) ISOBG_INPAINT_INIT_NEIGHBOR_L1 n
           = Some (False, Gray8 g) \<and>
         isolate_bg_main rd cv cfg (Some (Gray8 g)) = isolate_bg_output rd cv cfg (Gray8 g) (Gray8 g) \<and>
         isolate_bg_main rd cv cfg (Some (Gray8 g)) \<noteq> Exit_failure"
proof -
  have m: "\<forall>y<image_rows (Gray8 g). \<forall>x<image_cols (Gray8 g). px (refine_mask cv cfg tmp) y x \<noteq> 0"
    using assms(4) by (simp add: image_rows_def image_cols_def)
  note f = fastInpaint_fully_masked [OF m]
  have main: "isolate_bg_main rd cv cfg (Some (Gray8 g)) =
                isolate_bg_output rd cv cfg (Gray8 g) (Gray8 g)"
    unfolding isolate_bg_main_gray [OF assms(1-3)] f by simp
  show ?thesis
    using f main isolate_bg_output_not_failure [of rd cv cfg "Gray8 g" "Gray8 g"] by simp
qed

lemma example_binarized:
  "\<exists>b tmp. binarizeUsingSauvola exact (uniform_image 1 1 200)
              (integralWindowSize example_isolate_bg_config) (kParam_bg example_isolate_bg_config)
              (rScale_bg example_isolate_bg_config) = Some b \<and>
           mat_defined b = Some tmp \<and> rows tmp = 1 \<and> cols tmp = 1 \<and> px tmp 0 0 = 0"
proof -
  let ?g = "uniform_image 1 1 200"
  have nb: "\<not> (cols ?g = 0 \<or> rows ?g = 0 \<or> pad_size_too_big (cols ?g) (rows ?g) 60)"
    by (simp add: uniform_image_def pad_size_too_big_def INT_MAX_def)
  then obtain b where b: "binarizeUsingSauvola exact ?g 60 0 1 = Some b"
    using binarize_Some_iff [of exact ?g 60 0 1] by blast
  have w: "(1 :: nat) \<le> 60" "(60 :: nat) \<le> windowSizeLimit" by (simp_all add: windowSizeLimit_def)
  have yx: "(0 :: nat) < rows ?g" "(0 :: nat) < cols ?g" by (simp_all add: uniform_image_def)
  have t: "spec_threshold 1 0 (1 * (255 * 0.5)) 0 (real (unat (200 :: uchar))) 0 = 200"
    by (simp add: spec_threshold_def)
  have i: "double_to_int 200 = Some 200" by (simp add: double_to_int_def truncate_real_def)
  have p: "px b 0 0 = Some 0"
    unfolding binarize_px_exact [OF b w yx] uniform_stats [OF w(1)] t i
    by (simp add: uniform_image_def)
  have d: "rows b = 1" "cols b = 1"
    using binarize_dims [OF b] by (simp_all add: uniform_image_def)
  have "mat_defined b = Some (mat_map the b)"
    using p d by (simp add: mat_defined_def)
  moreover have "rows (mat_map the b) = 1" "cols (mat_map the b) = 1" "px (mat_map the b) 0 0 = 0"
    using p d by (simp_all add: mat_map_def)
  ultimately show ?thesis
    using b by (auto simp: example_isolate_bg_config_def)
qed

lemma example_refined:
  assumes "rows tmp = 1" "cols tmp = 1" "px tmp 0 0 = 0"
  shows "px (refine_mask example_cv example_isolate_bg_config tmp) 0 0 = 255"
proof -
  have dt: "distanceTransform_L2 example_cv = mat_map (\<lambda>v. if v = 0 then 0 else 1)"
    by (simp add: example_cv_def)
  show ?thesis
    using assms
    by (simp add: refine_mask_def Let_def maskInvert_px maskInset_px dt mat_map_def
          example_isolate_bg_config_def)
qed

lemma example_output:
  "\<exists>m. isolate_bg_output exact example_cv example_isolate_bg_config
          (Gray8 (uniform_image 1 1 200)) (Gray8 (uniform_image 1 1 200)) = Written (Gray8 m) \<and>
       px m 0 0 = 229"
proof -
  let ?g = "uniform_image 1 1 200"
  let ?cfg = example_isolate_bg_config
  have dims: "image_cols (Gray8 ?g) = 1" "image_rows (Gray8 ?g) = 1"
    by (simp_all add: image_cols_def image_rows_def uniform_image_def)
  have pxg: "px ?g y x = 200" for y x by (simp add: uniform_image_def)
  have cfg: "outputMode ?cfg = OUT_NORMALIZED_IMAGE" "backgroundBlur ?cfg = 9"
    "backgroundAlpha ?cfg = 9 / 10" "\<not> adjustBrightness ?cfg"
    by (simp_all add: example_isolate_bg_config_def)
  have blur: "GaussianBlur_8U example_cv ?g 9 = ?g" by (simp add: example_cv_def)
  have f: "\<lfloor>459 / 2 :: real\<rfloor> = 229" by (rule floor_unique) simp_all
  have v: "normalize_value exact (9 / 10) 200 200 = Some 229"
    by (simp add: normalize_value_def exact_def double_to_uchar_def truncate_real_def f)
  have loop: "for_yx_option 1 1 (\<lambda>y x m. normalize_value exact (9 / 10) (px m y x) (px ?g y x)) ?g
                = Some (at_put ?g 0 0 229)"
    by (simp add: for_yx_option_def for_yx_def uniform_image_simps v)
  have norm: "normalize_image exact (9 / 10) 1 1 (Gray8 ?g) (Gray8 ?g)
                = Some (Gray8 (at_put ?g 0 0 229))"
    unfolding normalize_image_def by (simp only: prod.case image.case loop option.map)
  have "isolate_bg_output exact example_cv ?cfg (Gray8 ?g) (Gray8 ?g)
          = Written (Gray8 (at_put ?g 0 0 229))"
    unfolding isolate_bg_output_def Let_def dims cfg
    by (simp add: blur norm cfg del: One_nat_def)
  moreover have "px (at_put ?g 0 0 229) 0 0 = 229" by (simp add: at_put_simps)
  ultimately show ?thesis by blast
qed

theorem fully_masked_run_witness:
  "\<not> inputAsGrayscale example_isolate_bg_config \<and>
   (\<exists>b tmp.
      binarizeUsingSauvola exact (uniform_image 1 1 200)
        (integralWindowSize example_isolate_bg_config) (kParam_bg example_isolate_bg_config)
        (rScale_bg example_isolate_bg_config) = Some b \<and>
      mat_defined b = Some tmp \<and>
      px (refine_mask example_cv example_isolate_bg_config tmp) 0 0 = 255 \<and>
      fastInpaint example_cv (Gray8 (uniform_image 1 1 200))
        (refine_mask example_cv example_isolate_bg_config tmp)
        (inpaintInitMode example_isolate_bg_config) (inpaintIterations example_isolate_bg_config)
        = Some (False, Gray8 (uniform_image 1 1 200))) \<and>
   (\<exists>m. isolate_bg_main exact example_cv example_isolate_bg_config
           (Some (Gray8 (uniform_image 1 1 200))) = Written (Gray8 m) \<and> px m 0 0 = 229)"
proof -
  let ?g = "uniform_image 1 1 200"
  let ?cfg = example_isolate_bg_config
  have g: "\<not> inputAsGrayscale ?cfg" by (simp add: example_isolate_bg_config_def)
  obtain b tmp where b: "binarizeUsingSauvola exact ?g (integralWindowSize ?cfg) (kParam_bg ?cfg)
       (rScale_bg ?cfg) = Some b"
    and tmp: "mat_defined b = Some tmp" "rows tmp = 1" "cols tmp = 1" "px tmp 0 0 = 0"
    using example_binarized by blast
  have r: "px (refine_mask example_cv ?cfg tmp) 0 0 = 255"
    by (rule example_refined [OF tmp(2-4)])
  have masked: "\<forall>y<rows ?g. \<forall>x<cols ?g. px (refine_mask example_cv ?cfg tmp) y x \<noteq> 0"
    using r by (simp add: uniform_image_def)
  note run = fully_masked_run [OF g b tmp(1) masked, of "inpaintIterations ?cfg"]
  have mode: "inpaintInitMode ?cfg = ISOBG_INPAINT_INIT_NEIGHBOR_L1"
    by (simp add: example_isolate_bg_config_def)
  have f: "fastInpaint example_cv (Gray8 ?g) (refine_mask example_cv ?cfg tmp)
             (inpaintInitMode ?cfg) (inpaintIterations ?cfg) = Some (False, Gray8 ?g)"
    unfolding mode using run by blast
  have main: "isolate_bg_main exact example_cv ?cfg (Some (Gray8 ?g)) =
                isolate_bg_output exact example_cv ?cfg (Gray8 ?g) (Gray8 ?g)"
    using run by blast
  show ?thesis
    using g b tmp(1) r f example_output unfolding main by blast
qed

subsection \<open>A uniform block under binary64 rounding\<close>












lemma c_sqrt_None_iff: "c_sqrt rd r = None \<longleftrightarrow> r < 0"
  by (simp add: c_sqrt_def)

subsection \<open>The square root in the window statistics\<close>





end
